theory Spec2Isabelle
  imports Main "HOL-Library.Multiset"
begin

section \<open>Data model\<close>

text \<open>
  The rows of the three tables the server reads and writes. A player dictionary of
  \<^verbatim>\<open>start_new_hand\<close> and \<^verbatim>\<open>get_player_positions\<close> is a row of the
  \<^verbatim>\<open>seats\<close> table (the columns \<^verbatim>\<open>id, user_id, seat_number, status, chip_count\<close>
  are the ones the code reads); the column \<^verbatim>\<open>id\<close> is the field \<open>seat_id\<close> here.
  Cards, statuses, user ids and game codes are Python strings; chip counts, blinds
  and seat numbers are Python integers.
\<close>

record seat =
  seat_id :: nat
  game_id :: nat
  user_id :: string
  seat_number :: int
  chip_count :: int
  status :: string
  cards :: "string list option"

record GameSettings =
  game_name :: string
  buy_in :: int
  small_blind :: int
  big_blind :: int
  use_real_chips :: bool
  max_players :: int

record game =
  g_id :: nat
  game_code :: string
  host_id :: string
  g_status :: string
  settings :: GameSettings

record game_state =
  gs_game_id :: nat
  dealer_position :: "int option"
  pot_size :: int
  current_bet :: int
  community_cards :: "string list"
  current_player_turn :: "string option"

record db =
  games :: "game list"
  game_states :: "game_state list"
  seats :: "seat list"

text \<open>Python exceptions and the HTTP errors of the endpoints, as values.\<close>

datatype py_error = IndexError | ZeroDivisionError | TypeError | Exception string

datatype http_error = HTTPException nat string

section \<open>game\_logic.py\<close>

subsection \<open>Deck\<close>

definition SUITS :: "string list" where
  "SUITS = [''H'', ''D'', ''C'', ''S'']"

text \<open>The thirteen ranks, each a one-character string, in the order of the source.\<close>

definition RANKS :: "string list" where
  "RANKS = map (\<lambda>c. [c]) ''23456789TJQKA''"

definition create_deck :: "string list" where
  "create_deck = concat (map (\<lambda>suit. map (\<lambda>rank. rank @ suit) RANKS) SUITS)"

text \<open>
  \<^verbatim>\<open>random.shuffle\<close> is the standard library's in-place Fisher--Yates shuffle:
  \<^verbatim>\<open>for i in reversed(range(1, len(x))): j = randbelow(i + 1); x[i], x[j] = x[j], x[i]\<close>.
  The generator is an argument: \<open>rand i\<close> is the raw draw made at loop index \<open>i\<close>,
  reduced below \<open>i + 1\<close>.
\<close>

definition swap :: "'a list \<Rightarrow> nat \<Rightarrow> nat \<Rightarrow> 'a list" where
  "swap xs i j = (xs[i := xs ! j])[j := xs ! i]"

fun shuffle_from :: "(nat \<Rightarrow> nat) \<Rightarrow> nat \<Rightarrow> 'a list \<Rightarrow> 'a list" where
  "shuffle_from rand 0 xs = xs"
| "shuffle_from rand (Suc k) xs =
     shuffle_from rand k (swap xs (Suc k) (rand (Suc k) mod (Suc k + 1)))"

definition shuffle_deck :: "(nat \<Rightarrow> nat) \<Rightarrow> 'a list \<Rightarrow> 'a list" where
  "shuffle_deck rand deck = shuffle_from rand (length deck - 1) deck"

subsection \<open>Positions\<close>

text \<open>\<^verbatim>\<open>list.index\<close>: the first index of a value, \<open>None\<close> for the ValueError.\<close>

fun index_of :: "'a list \<Rightarrow> 'a \<Rightarrow> nat option" where
  "index_of [] v = None"
| "index_of (x # xs) v = (if x = v then Some 0 else map_option Suc (index_of xs v))"

definition py_mod :: "nat \<Rightarrow> nat \<Rightarrow> py_error + nat" where
  "py_mod a b = (if b = 0 then Inl ZeroDivisionError else Inr (a mod b))"

definition py_nth :: "'a list \<Rightarrow> nat \<Rightarrow> py_error + 'a" where
  "py_nth xs i = (if i < length xs then Inr (xs ! i) else Inl IndexError)"

definition bind_err :: "'e + 'a \<Rightarrow> ('a \<Rightarrow> 'e + 'b) \<Rightarrow> 'e + 'b" where
  "bind_err m f = (case m of Inl e \<Rightarrow> Inl e | Inr x \<Rightarrow> f x)"

definition active_players :: "seat list \<Rightarrow> seat list" where
  "active_players players =
     sort_key seat_number (filter (\<lambda>p. status p = ''playing'') players)"

definition player_seats :: "seat list \<Rightarrow> int list" where
  "player_seats players = map seat_number (active_players players)"

definition dealer_index :: "int list \<Rightarrow> int \<Rightarrow> nat" where
  "dealer_index ps dealer_seat = (case index_of ps dealer_seat of Some i \<Rightarrow> i | None \<Rightarrow> 0)"

definition get_player_positions :: "seat list \<Rightarrow> int \<Rightarrow> py_error + (int \<times> int \<times> int)" where
  "get_player_positions players dealer_seat =
     (let ps = player_seats players;
          di = dealer_index ps dealer_seat
      in if length ps = 2 then
           bind_err (py_nth ps di) (\<lambda>sb_seat.
           bind_err (py_mod (di + 1) (length ps)) (\<lambda>bb_index.
           bind_err (py_nth ps bb_index) (\<lambda>bb_seat.
           Inr (sb_seat, bb_seat, sb_seat))))
         else
           bind_err (py_mod (di + 1) (length ps)) (\<lambda>sb_index.
           bind_err (py_mod (di + 2) (length ps)) (\<lambda>bb_index.
           bind_err (py_mod (di + 3) (length ps)) (\<lambda>utg_index.
           bind_err (py_nth ps sb_index) (\<lambda>sb_seat.
           bind_err (py_nth ps bb_index) (\<lambda>bb_seat.
           bind_err (py_nth ps utg_index) (\<lambda>utg_seat.
           Inr (sb_seat, bb_seat, utg_seat))))))))"

text \<open>
  The terms of the specification the resolver is compared with: the eligible seats are
  the seat numbers of the seats with status \<^verbatim>\<open>playing\<close>, and the next eligible seat
  after \<open>s\<close>, in ascending seat-number order wrapping circularly, is the lowest
  eligible seat number above \<open>s\<close>, or the lowest of all when none is above.
\<close>

definition eligible_seats :: "seat list \<Rightarrow> int list" where
  "eligible_seats players = map seat_number (filter (\<lambda>p. status p = ''playing'') players)"

definition next_eligible :: "int list \<Rightarrow> int \<Rightarrow> int" where
  "next_eligible es s =
     (let later = filter (\<lambda>x. s < x) es
      in if later = [] then Min (set es) else Min (set later))"

section \<open>api/games.py\<close>

subsection \<open>Database operations\<close>

text \<open>
  \<^verbatim>\<open>db.table(t).update(values).eq(column, key).execute()\<close> rewrites every row whose
  column equals the key; \<^verbatim>\<open>insert\<close> appends a row, whose primary key the database
  generates (here: one above every key in use).
\<close>

definition update_seats :: "(seat \<Rightarrow> seat) \<Rightarrow> nat \<Rightarrow> db \<Rightarrow> db" where
  "update_seats f key d =
     d\<lparr>seats := map (\<lambda>row. if seat_id row = key then f row else row) (seats d)\<rparr>"

definition update_game_state :: "(game_state \<Rightarrow> game_state) \<Rightarrow> nat \<Rightarrow> db \<Rightarrow> db" where
  "update_game_state f key d =
     d\<lparr>game_states := map (\<lambda>row. if gs_game_id row = key then f row else row) (game_states d)\<rparr>"

definition update_games :: "(game \<Rightarrow> game) \<Rightarrow> nat \<Rightarrow> db \<Rightarrow> db" where
  "update_games f key d =
     d\<lparr>games := map (\<lambda>row. if g_id row = key then f row else row) (games d)\<rparr>"

definition fresh_seat_id :: "db \<Rightarrow> nat" where
  "fresh_seat_id d = Suc (foldr max (map seat_id (seats d)) 0)"

definition insert_seat :: "nat \<Rightarrow> string \<Rightarrow> int \<Rightarrow> int \<Rightarrow> string \<Rightarrow> db \<Rightarrow> db" where
  "insert_seat gid uid num chips st d =
     d\<lparr>seats := seats d @
        [\<lparr>seat_id = fresh_seat_id d, game_id = gid, user_id = uid, seat_number = num,
          chip_count = chips, status = st, cards = None\<rparr>]\<rparr>"

text \<open>
  \<^verbatim>\<open>select(...).eq("game_code", code).single().execute()\<close> asks for exactly one
  row. One matching row is the data. With no matching row, or with several, the client
  library raises its own error, an \<^verbatim>\<open>Exception\<close> that is not an
  \<^verbatim>\<open>HTTPException\<close>, which the generic handler of the endpoints answers with 500.
  The data of a found row is never empty, so the endpoints' test
  \<^verbatim>\<open>if not game_res.data\<close> is kept as the code has it but is never taken.
\<close>

definition fetch_game :: "db \<Rightarrow> string \<Rightarrow> py_error + game option" where
  "fetch_game d code =
     (case filter (\<lambda>g. game_code g = code) (games d) of
        [g] \<Rightarrow> Inr (Some g)
      | _ \<Rightarrow> Inl (Exception ''the query did not return exactly one row''))"

definition seats_of_game :: "db \<Rightarrow> nat \<Rightarrow> seat list" where
  "seats_of_game d gid = filter (\<lambda>s. game_id s = gid) (seats d)"

subsection \<open>start\_new\_hand\<close>

text \<open>\<^verbatim>\<open>list.pop()\<close> takes the last element; on an empty list it raises IndexError.\<close>

definition pop :: "'a list \<Rightarrow> py_error + ('a \<times> 'a list)" where
  "pop xs = (if xs = [] then Inl IndexError else Inr (last xs, butlast xs))"

text \<open>
  \<^verbatim>\<open>random.choice(seq)\<close> is \<^verbatim>\<open>seq[randbelow(len(seq))]\<close> and raises IndexError on an
  empty sequence; \<open>r\<close> is the generator's raw draw.
\<close>

definition choice :: "nat \<Rightarrow> 'a list \<Rightarrow> py_error + 'a" where
  "choice r xs = (if xs = [] then Inl IndexError else Inr (xs ! (r mod length xs)))"

text \<open>
  The dealing loop. The updates are not atomic: when a \<^verbatim>\<open>pop\<close> fails, the rows
  written so far stay written, so the database is returned with the error.
\<close>

fun deal_hole_cards :: "string list \<Rightarrow> seat list \<Rightarrow> db \<Rightarrow> (py_error + string list) \<times> db" where
  "deal_hole_cards deck [] d = (Inr deck, d)"
| "deal_hole_cards deck (player # rest) d =
     (case pop deck of
        Inl e \<Rightarrow> (Inl e, d)
      | Inr (c1, deck1) \<Rightarrow>
          (case pop deck1 of
             Inl e \<Rightarrow> (Inl e, d)
           | Inr (c2, deck2) \<Rightarrow>
               deal_hole_cards deck2 rest
                 (update_seats (\<lambda>row. row\<lparr>cards := Some [c1, c2]\<rparr>) (seat_id player) d)))"

text \<open>
  The pair of cards that the \<open>i\<close>-th player of the list is dealt: the top of the deck
  is the end of the list, so these are the cards \<open>2 * i\<close> and \<open>2 * i + 1\<close> places
  from the end.
\<close>

definition hole_cards :: "'a list \<Rightarrow> nat \<Rightarrow> 'a list" where
  "hole_cards deck i = take 2 (drop (2 * i) (rev deck))"

definition start_new_hand ::
  "(nat \<Rightarrow> nat) \<Rightarrow> nat \<Rightarrow> nat \<Rightarrow> seat list \<Rightarrow> GameSettings \<Rightarrow> db \<Rightarrow> (py_error + unit) \<times> db" where
  "start_new_hand rand r gid players stg d =
     (case deal_hole_cards (shuffle_deck rand create_deck) players d of
        (Inl e, d1) \<Rightarrow> (Inl e, d1)
      | (Inr deck, d1) \<Rightarrow>
     (case choice r (map seat_number players) of
        Inl e \<Rightarrow> (Inl e, d1)
      | Inr dealer_seat \<Rightarrow>
     (case get_player_positions players dealer_seat of
        Inl e \<Rightarrow> (Inl e, d1)
      | Inr (sb_seat, bb_seat, utg_seat) \<Rightarrow>
     (let small_blind_amount = small_blind stg;
          big_blind_amount = big_blind stg
      in
     (case find (\<lambda>p. seat_number p = sb_seat) players of
        None \<Rightarrow> (Inl TypeError, d1)
      | Some sb_player \<Rightarrow>
     (let d2 = update_seats
                 (\<lambda>row. row\<lparr>chip_count := chip_count sb_player - small_blind_amount\<rparr>)
                 (seat_id sb_player) d1
      in
     (case find (\<lambda>p. seat_number p = bb_seat) players of
        None \<Rightarrow> (Inl TypeError, d2)
      | Some bb_player \<Rightarrow>
     (let d3 = update_seats
                 (\<lambda>row. row\<lparr>chip_count := chip_count bb_player - big_blind_amount\<rparr>)
                 (seat_id bb_player) d2;
          pot = small_blind_amount + big_blind_amount
      in
     (case find (\<lambda>p. seat_number p = utg_seat) players of
        None \<Rightarrow> (Inl (Exception ''Could not determine the first player to act.''), d3)
      | Some utg_player \<Rightarrow>
          (Inr (),
           update_game_state
             (\<lambda>row. row\<lparr>dealer_position := Some dealer_seat, pot_size := pot,
                         current_bet := big_blind_amount, community_cards := [],
                         current_player_turn := Some (user_id utg_player)\<rparr>)
             gid d3))))))))))"

subsection \<open>Endpoints\<close>

definition join_player_id :: string where
  "join_player_id = ''f0e9d8c7-b6a5-4321-fedc-ba9876543210''"

definition start_host_id :: string where
  "start_host_id = ''a1b2c3d4-e5f6-7890-1234-567890abcdef''"

text \<open>The loop of \<^verbatim>\<open>join_game\<close> over \<^verbatim>\<open>range(1, max_players + 1)\<close>, with its sentinel.\<close>

definition first_available_seat :: "int set \<Rightarrow> int \<Rightarrow> int" where
  "first_available_seat taken_seats maxp =
     (case find (\<lambda>seat_num. seat_num \<notin> taken_seats) [1..maxp] of
        None \<Rightarrow> - 1
      | Some seat_num \<Rightarrow> seat_num)"

definition join_game :: "db \<Rightarrow> string \<Rightarrow> (http_error + int) \<times> db" where
  "join_game d code =
     (case fetch_game d code of
        Inl e \<Rightarrow>
          (Inl (HTTPException 500 ''An error occurred while trying to join the game.''), d)
      | Inr None \<Rightarrow> (Inl (HTTPException 404 ''Game not found.''), d)
      | Inr (Some gm) \<Rightarrow>
          (let maxp = max_players (settings gm) in
           if g_status gm \<noteq> ''waiting'' then
             (Inl (HTTPException 403 ''Game is already in progress.''), d)
           else
             (let seats_res = seats_of_game d (g_id gm) in
              if maxp \<le> int (length seats_res) then
                (Inl (HTTPException 403 ''Game is full.''), d)
              else if list_ex (\<lambda>s. user_id s = join_player_id) seats_res then
                (Inl (HTTPException 400 ''You are already in this game.''), d)
              else
                (let taken_seats = set (map seat_number seats_res);
                     available_seat = first_available_seat taken_seats maxp
                 in if available_seat = - 1 then
                      (Inl (HTTPException 500
                         ''Could not find an available seat, the game might be full.''), d)
                    else
                      (Inr available_seat,
                       insert_seat (g_id gm) join_player_id available_seat
                         (buy_in (settings gm)) ''playing'' d)))))"

definition start_game :: "(nat \<Rightarrow> nat) \<Rightarrow> nat \<Rightarrow> db \<Rightarrow> string \<Rightarrow> (http_error + string) \<times> db" where
  "start_game rand r d code =
     (case fetch_game d code of
        Inl e \<Rightarrow> (Inl (HTTPException 500 ''An error occurred while starting the game.''), d)
      | Inr None \<Rightarrow> (Inl (HTTPException 404 ''Game not found.''), d)
      | Inr (Some gm) \<Rightarrow>
          if host_id gm \<noteq> start_host_id then
            (Inl (HTTPException 403 ''Only the host can start the game.''), d)
          else if g_status gm \<noteq> ''waiting'' then
            (Inl (HTTPException 400 ''Game has already started or is finished.''), d)
          else
            (let players = seats_of_game d (g_id gm) in
             if length players < 2 then
               (Inl (HTTPException 400 ''Cannot start a game with fewer than 2 players.''), d)
             else
               (let d1 = update_games (\<lambda>row. row\<lparr>g_status := ''in_progress''\<rparr>) (g_id gm) d in
                case start_new_hand rand r (g_id gm) players (settings gm) d1 of
                  (Inl e, d2) \<Rightarrow>
                    (Inl (HTTPException 500 ''An error occurred while starting the game.''), d2)
                | (Inr u, d2) \<Rightarrow> (Inr ''Game started successfully.'', d2))))"

section \<open>Example tables\<close>

text \<open>Concrete seats and tables on which the theorems below are instantiated.\<close>

definition mk_seat :: "nat \<Rightarrow> int \<Rightarrow> int \<Rightarrow> string \<Rightarrow> seat" where
  "mk_seat i num chips st =
     \<lparr>seat_id = i, game_id = 1, user_id = replicate i CHR ''u'', seat_number = num,
      chip_count = chips, status = st, cards = None\<rparr>"

definition three_playing :: "seat list" where
  "three_playing = [mk_seat 1 1 100 ''playing'', mk_seat 2 2 100 ''playing'', mk_seat 3 3 100 ''playing'']"

definition two_playing :: "seat list" where
  "two_playing = [mk_seat 1 1 100 ''playing'', mk_seat 2 2 100 ''playing'']"

definition four_playing :: "seat list" where
  "four_playing = three_playing @ [mk_seat 4 4 100 ''playing'']"

definition one_playing :: "seat list" where
  "one_playing = [mk_seat 1 1 100 ''playing'']"

definition one_playing_one_out :: "seat list" where
  "one_playing_one_out = [mk_seat 1 1 100 ''playing'', mk_seat 2 2 100 ''sitting_out'']"

definition short_stacked :: "seat list" where
  "short_stacked = [mk_seat 1 1 1 ''playing'', mk_seat 2 2 1 ''playing'']"

definition blinds_5_10 :: GameSettings where
  "blinds_5_10 =
     \<lparr>game_name = ''table'', buy_in = 100, small_blind = 5, big_blind = 10,
      use_real_chips = False, max_players = 8\<rparr>"

definition blinds_5_10_buy_in_1 :: GameSettings where
  "blinds_5_10_buy_in_1 =
     \<lparr>game_name = ''table'', buy_in = 1, small_blind = 5, big_blind = 10,
      use_real_chips = False, max_players = 8\<rparr>"

definition fresh_state :: game_state where
  "fresh_state =
     \<lparr>gs_game_id = 1, dealer_position = None, pot_size = 0, current_bet = 0,
      community_cards = [], current_player_turn = None\<rparr>"

definition table_db :: "string \<Rightarrow> GameSettings \<Rightarrow> seat list \<Rightarrow> db" where
  "table_db st stg rows =
     \<lparr>games = [\<lparr>g_id = 1, game_code = ''ABC123'', host_id = start_host_id,
                 g_status = st, settings = stg\<rparr>],
      game_states = [fresh_state], seats = rows\<rparr>"

text \<open>
  Two tables in one database: a heads-up table (code \<^verbatim>\<open>ABC123\<close>, at most 2 players)
  with its host at seat 1, and a second table whose seats 1 and 2 are both taken.
\<close>

definition heads_up_5_10 :: GameSettings where
  "heads_up_5_10 =
     \<lparr>game_name = ''heads-up'', buy_in = 100, small_blind = 5, big_blind = 10,
      use_real_chips = False, max_players = 2\<rparr>"

definition two_tables_db :: db where
  "two_tables_db =
     \<lparr>games = [\<lparr>g_id = 1, game_code = ''ABC123'', host_id = start_host_id,
                 g_status = ''waiting'', settings = heads_up_5_10\<rparr>,
               \<lparr>g_id = 2, game_code = ''XYZ789'', host_id = start_host_id,
                 g_status = ''waiting'', settings = blinds_5_10\<rparr>],
      game_states = [fresh_state],
      seats = [mk_seat 1 1 100 ''playing'',
               (mk_seat 2 1 100 ''playing'')\<lparr>game_id := 2\<rparr>,
               (mk_seat 3 2 100 ''playing'')\<lparr>game_id := 2\<rparr>]\<rparr>"

definition joined_seat :: seat where
  "joined_seat =
     \<lparr>seat_id = 4, game_id = 1, user_id = join_player_id, seat_number = 2,
      chip_count = 100, status = ''playing'', cards = None\<rparr>"

section \<open>Deck properties\<close>

lemma mset_swap_list:
  "i < length xs \<Longrightarrow> j < length xs \<Longrightarrow> mset (swap xs i j) = mset xs"
  unfolding swap_def by (simp add: mset_swap)

lemma length_swap_list: "length (swap xs i j) = length xs"
  by (simp add: swap_def)

lemma mset_shuffle_from: "k < length xs \<Longrightarrow> mset (shuffle_from rand k xs) = mset xs"
proof (induction k arbitrary: xs)
  case 0
  then show ?case by simp
next
  case (Suc k)
  let ?j = "rand (Suc k) mod (Suc k + 1)"
  have "?j < Suc k + 1" by (rule mod_less_divisor) simp
  then have j: "?j < length xs" using Suc.prems by linarith
  have "mset (shuffle_from rand k (swap xs (Suc k) ?j)) = mset (swap xs (Suc k) ?j)"
    using Suc.prems by (intro Suc.IH) (simp add: length_swap_list)
  also have "\<dots> = mset xs" using Suc.prems j by (rule mset_swap_list)
  finally show ?case by simp
qed

lemma mset_shuffle_deck: "mset (shuffle_deck rand deck) = mset deck"
  by (cases deck) (simp_all add: shuffle_deck_def mset_shuffle_from)

lemma length_shuffle_deck: "length (shuffle_deck rand deck) = length deck"
  using mset_shuffle_deck[of rand deck] by (rule mset_eq_length)

lemma distinct_shuffle_deck: "distinct (shuffle_deck rand deck) = distinct deck"
  using mset_shuffle_deck[of rand deck] by (rule mset_eq_imp_distinct_iff)

lemma length_create_deck: "length create_deck = 52"
  by (simp add: create_deck_def SUITS_def RANKS_def)

lemma distinct_create_deck: "distinct create_deck"
  by code_simp

text \<open>
  C8. \<^verbatim>\<open>create_deck\<close> returns 52 pairwise different cards, which are exactly the
  combinations of one of the 13 ranks with one of the 4 suits, and \<^verbatim>\<open>shuffle_deck\<close>
  returns a permutation of its input: the same cards with the same multiplicities, hence
  the same length.
\<close>

theorem deck_is_standard_and_shuffle_permutes:
  "length create_deck = 52 \<and> distinct create_deck
   \<and> set create_deck = {rank @ suit | rank suit. rank \<in> set RANKS \<and> suit \<in> set SUITS}
   \<and> length RANKS = 13 \<and> distinct RANKS \<and> length SUITS = 4 \<and> distinct SUITS
   \<and> mset (shuffle_deck rand deck) = mset deck
   \<and> length (shuffle_deck rand deck) = length deck"
proof -
  have "set create_deck = {rank @ suit | rank suit. rank \<in> set RANKS \<and> suit \<in> set SUITS}"
    unfolding create_deck_def by auto
  moreover have "length RANKS = 13" "distinct RANKS" by (simp_all add: RANKS_def)
  moreover have "length SUITS = 4" "distinct SUITS" by (simp_all add: SUITS_def)
  ultimately show ?thesis
    by (simp only: length_create_deck distinct_create_deck mset_shuffle_deck
        length_shuffle_deck simp_thms)
qed

section \<open>Position resolver\<close>

subsection \<open>The sorted seat list and the dealer's index\<close>

lemma mset_player_seats: "mset (player_seats players) = mset (eligible_seats players)"
  unfolding player_seats_def active_players_def eligible_seats_def by simp

lemma sorted_player_seats: "sorted (player_seats players)"
  unfolding player_seats_def active_players_def by simp

lemma set_player_seats: "set (player_seats players) = set (eligible_seats players)"
  using mset_player_seats by (rule mset_eq_setD)

lemma length_player_seats: "length (player_seats players) = length (eligible_seats players)"
  using mset_player_seats by (rule mset_eq_length)

lemma distinct_player_seats: "distinct (player_seats players) = distinct (eligible_seats players)"
  using mset_player_seats by (rule mset_eq_imp_distinct_iff)

lemma index_of_None: "v \<notin> set xs \<Longrightarrow> index_of xs v = None"
  by (induction xs) auto

lemma index_of_nth: "distinct xs \<Longrightarrow> i < length xs \<Longrightarrow> index_of xs (xs ! i) = Some i"
proof (induction xs arbitrary: i)
  case Nil then show ?case by simp
next
  case (Cons x xs)
  show ?case
  proof (cases i)
    case 0 then show ?thesis by simp
  next
    case (Suc k)
    with Cons.prems have "xs ! k \<in> set xs" "x \<notin> set xs" by auto
    then have "x \<noteq> xs ! k" by auto
    with Cons Suc show ?thesis by simp
  qed
qed


lemma index_of_Some: "index_of xs v = Some i \<Longrightarrow> i < length xs \<and> xs ! i = v"
  by (induction xs arbitrary: i) (auto split: if_splits)

lemma index_of_mem: "v \<in> set xs \<Longrightarrow> \<exists>i. index_of xs v = Some i"
  by (induction xs) auto

lemma dealer_index_lt: "xs \<noteq> [] \<Longrightarrow> dealer_index xs d < length xs"
  unfolding dealer_index_def by (auto split: option.splits dest: index_of_Some)

lemma dealer_index_mem: "d \<in> set xs \<Longrightarrow> xs ! dealer_index xs d = d"
  unfolding dealer_index_def using index_of_mem[of d xs] by (auto dest: index_of_Some)



lemma positions_two:
  assumes "length (player_seats players) = 2"
  shows "get_player_positions players d =
    Inr (player_seats players ! dealer_index (player_seats players) d,
         player_seats players ! ((dealer_index (player_seats players) d + 1) mod 2),
         player_seats players ! dealer_index (player_seats players) d)"
proof -
  from assms have ne: "player_seats players \<noteq> []" by auto
  have "dealer_index (player_seats players) d < 2"
    using dealer_index_lt[OF ne, of d] assms by simp
  then show ?thesis using assms
    by (simp add: get_player_positions_def Let_def bind_err_def py_nth_def py_mod_def)
qed

lemma positions_many:
  assumes "length (player_seats players) \<noteq> 2" "player_seats players \<noteq> []"
  shows "get_player_positions players d =
    Inr (player_seats players ! ((dealer_index (player_seats players) d + 1) mod length (player_seats players)),
         player_seats players ! ((dealer_index (player_seats players) d + 2) mod length (player_seats players)),
         player_seats players ! ((dealer_index (player_seats players) d + 3) mod length (player_seats players)))"
  using assms
  by (simp add: get_player_positions_def Let_def bind_err_def py_nth_def py_mod_def)

lemma positions_none:
  assumes "player_seats players = []"
  shows "get_player_positions players d = Inl ZeroDivisionError"
  using assms
  by (simp add: get_player_positions_def Let_def bind_err_def py_nth_def py_mod_def)

lemma sorted_Min_hd: "sorted xs \<Longrightarrow> xs \<noteq> [] \<Longrightarrow> Min (set xs) = hd (xs :: int list)"
  by (cases xs) (auto intro!: Min_eqI)

subsection \<open>A dealer seat that is not playing\<close>



subsection \<open>The next eligible seat is the next index of the sorted list\<close>

lemma filter_greater_nth:
  assumes "sorted_wrt (<) (xs :: int list)" "i < length xs"
  shows "filter (\<lambda>x. xs ! i < x) xs = drop (Suc i) xs"
proof -
  have a: "filter (\<lambda>x. xs ! i < x) (take (Suc i) xs) = []"
  proof -
    have "\<forall>x \<in> set (take (Suc i) xs). \<not> xs ! i < x"
    proof
      fix x assume "x \<in> set (take (Suc i) xs)"
      then obtain k where k: "k < Suc i" "k < length xs" "x = xs ! k"
        by (auto simp: in_set_conv_nth)
      show "\<not> xs ! i < x"
      proof (cases "k = i")
        case True with k show ?thesis by simp
      next
        case False
        with k have "k < i" by simp
        with assms have "xs ! k < xs ! i" by (simp add: sorted_wrt_nth_less)
        with k show ?thesis by simp
      qed
    qed
    then show ?thesis by (simp add: filter_empty_conv)
  qed
  have b: "filter (\<lambda>x. xs ! i < x) (drop (Suc i) xs) = drop (Suc i) xs"
  proof -
    have "\<forall>x \<in> set (drop (Suc i) xs). xs ! i < x"
    proof
      fix x assume "x \<in> set (drop (Suc i) xs)"
      then obtain k where k: "k < length xs - Suc i" "x = xs ! (Suc i + k)"
        by (auto simp: in_set_conv_nth)
      then have "i < Suc i + k" "Suc i + k < length xs" by auto
      with assms have "xs ! i < xs ! (Suc i + k)" by (simp add: sorted_wrt_nth_less)
      with k show "xs ! i < x" by simp
    qed
    then show ?thesis by (simp add: filter_id_conv)
  qed
  have "filter (\<lambda>x. xs ! i < x) xs
      = filter (\<lambda>x. xs ! i < x) (take (Suc i) xs @ drop (Suc i) xs)" by simp
  also have "\<dots> = drop (Suc i) xs" using a b by (simp only: filter_append append_Nil)
  finally show ?thesis .
qed

lemma next_eligible_cong: "set es = set es' \<Longrightarrow> next_eligible es s = next_eligible es' s"
proof -
  assume h: "set es = set es'"
  then have "set (filter (\<lambda>x. s < x) es) = set (filter (\<lambda>x. s < x) es')" by simp
  moreover have "(filter (\<lambda>x. s < x) es = []) = (filter (\<lambda>x. s < x) es' = [])"
    using h by (auto simp: filter_empty_conv)
  ultimately show ?thesis using h unfolding next_eligible_def Let_def by simp
qed

lemma next_eligible_sorted:
  assumes "sorted (xs :: int list)" "distinct xs" "i < length xs"
  shows "next_eligible xs (xs ! i) = xs ! (Suc i mod length xs)"
proof -
  have sw: "sorted_wrt (<) xs" using assms by (simp add: strict_sorted_iff)
  have f: "filter (\<lambda>x. xs ! i < x) xs = drop (Suc i) xs"
    using sw assms(3) by (rule filter_greater_nth)
  show ?thesis
  proof (cases "Suc i < length xs")
    case True
    then have ne: "drop (Suc i) xs \<noteq> []" by simp
    have "sorted (drop (Suc i) xs)" using assms(1) by (simp add: sorted_wrt_drop)
    then have "Min (set (drop (Suc i) xs)) = hd (drop (Suc i) xs)" using ne by (rule sorted_Min_hd)
    also have "\<dots> = xs ! Suc i" using True by (simp add: hd_drop_conv_nth)
    finally show ?thesis using True ne f by (simp add: next_eligible_def)
  next
    case False
    with assms(3) have e: "Suc i = length xs" by simp
    then have "drop (Suc i) xs = []" by simp
    moreover have "xs \<noteq> []" using assms(3) by auto
    then have "Min (set xs) = xs ! 0" using assms(1) by (simp add: sorted_Min_hd hd_conv_nth)
    ultimately show ?thesis using f e by (simp add: next_eligible_def)
  qed
qed

lemma next_eligible_player_seats:
  assumes "distinct (eligible_seats players)" "i < length (player_seats players)"
  shows "next_eligible (eligible_seats players) (player_seats players ! i)
       = player_seats players ! (Suc i mod length (player_seats players))"
proof -
  have "next_eligible (eligible_seats players) (player_seats players ! i)
      = next_eligible (player_seats players) (player_seats players ! i)"
    by (rule next_eligible_cong) (simp add: set_player_seats)
  also have "\<dots> = player_seats players ! (Suc i mod length (player_seats players))"
    using sorted_player_seats assms by (simp add: next_eligible_sorted distinct_player_seats)
  finally show ?thesis .
qed

subsection \<open>Positions with the dealer among the playing seats\<close>

text \<open>
  C2. Seat numbers are unique per table (the eligible seat numbers are distinct) and the
  dealer seat is playing. With exactly two eligible seats the small blind and the first
  to act are the dealer seat and the big blind is the other eligible seat. With three or
  more, the small blind is the next eligible seat after the dealer in ascending
  seat-number order wrapping circularly, the big blind the next after the small blind,
  and the first to act the next after the big blind.
\<close>

theorem positions_follow_seat_order:
  assumes "distinct (eligible_seats players)"
    and "dealer_seat \<in> set (eligible_seats players)"
  shows "(length (eligible_seats players) = 2 \<longrightarrow>
            (\<exists>other. get_player_positions players dealer_seat = Inr (dealer_seat, other, dealer_seat)
               \<and> other \<noteq> dealer_seat \<and> set (eligible_seats players) = {dealer_seat, other}))
       \<and> (3 \<le> length (eligible_seats players) \<longrightarrow>
            get_player_positions players dealer_seat =
              Inr (next_eligible (eligible_seats players) dealer_seat,
                   next_eligible (eligible_seats players)
                     (next_eligible (eligible_seats players) dealer_seat),
                   next_eligible (eligible_seats players)
                     (next_eligible (eligible_seats players)
                        (next_eligible (eligible_seats players) dealer_seat))))"
proof -
  let ?S = "player_seats players"
  let ?E = "eligible_seats players"
  let ?n = "length ?S"
  let ?i = "dealer_index ?S dealer_seat"
  have mem: "dealer_seat \<in> set ?S" using assms(2) by (simp add: set_player_seats)
  then have ne: "?S \<noteq> []" by auto
  have dS: "distinct ?S" using assms(1) by (simp add: distinct_player_seats)
  have i_lt: "?i < ?n" using ne by (rule dealer_index_lt)
  have at_i: "?S ! ?i = dealer_seat" using mem by (rule dealer_index_mem)
  have step: "\<And>k. k < ?n \<Longrightarrow> next_eligible ?E (?S ! k) = ?S ! (Suc k mod ?n)"
    using assms(1) by (rule next_eligible_player_seats)
  have heads_up: "\<exists>other. get_player_positions players dealer_seat = Inr (dealer_seat, other, dealer_seat)
               \<and> other \<noteq> dealer_seat \<and> set ?E = {dealer_seat, other}" if two: "length ?E = 2"
  proof -
    have n2: "?n = 2" using two by (simp add: length_player_seats)
    let ?j = "(?i + 1) mod 2"
    have j_lt: "?j < ?n" using n2 by simp
    have ij: "?i \<noteq> ?j" using i_lt n2 by presburger
    have neq: "?S ! ?j \<noteq> dealer_seat"
      using dS i_lt j_lt ij at_i by (metis nth_eq_iff_index_eq)
    have "set ?S = {?S ! ?i, ?S ! ?j}"
    proof -
      have s01: "set ?S = {?S ! 0, ?S ! 1}"
        using n2 by (cases ?S; cases "tl ?S") auto
      have "?i = 0 \<or> ?i = 1" using i_lt n2 by arith
      then consider (a) "?i = 0" "?j = 1" | (b) "?i = 1" "?j = 0" by auto
      then show ?thesis
      proof cases
        case a
        show ?thesis using s01 by (simp add: a(1))
      next
        case b
        show ?thesis using s01 by (simp add: b(1) insert_commute)
      qed
    qed
    then have "set ?E = {dealer_seat, ?S ! ?j}" using at_i by (simp add: set_player_seats)
    moreover have "get_player_positions players dealer_seat = Inr (dealer_seat, ?S ! ?j, dealer_seat)"
      using positions_two[OF n2, of dealer_seat] at_i by simp
    ultimately show ?thesis using neq by blast
  qed
  have ring: "get_player_positions players dealer_seat =
              Inr (next_eligible ?E dealer_seat,
                   next_eligible ?E (next_eligible ?E dealer_seat),
                   next_eligible ?E (next_eligible ?E (next_eligible ?E dealer_seat)))"
    if three: "3 \<le> length ?E"
  proof -
    have n3: "3 \<le> ?n" using three by (simp add: length_player_seats)
    then have n_ne2: "?n \<noteq> 2" by simp
    have npos: "0 < ?n" using ne by simp
    have s1: "next_eligible ?E dealer_seat = ?S ! ((?i + 1) mod ?n)"
      using step[OF i_lt] at_i by simp
    have s2: "next_eligible ?E (?S ! ((?i + 1) mod ?n)) = ?S ! ((?i + 2) mod ?n)"
      using step[of "(?i + 1) mod ?n"] npos by (simp add: mod_Suc_eq)
    have s3: "next_eligible ?E (?S ! ((?i + 2) mod ?n)) = ?S ! ((?i + 3) mod ?n)"
      using step[of "(?i + 2) mod ?n"] npos by (simp add: mod_Suc_eq numeral_3_eq_3)
    show ?thesis using positions_many[OF n_ne2 ne, of dealer_seat] s1 s2 s3 by simp
  qed
  from heads_up ring show ?thesis by blast
qed

lemma eligible_three_playing: "eligible_seats three_playing = [1, 2, 3]"
  by (simp add: eligible_seats_def three_playing_def mk_seat_def)

lemma eligible_two_playing: "eligible_seats two_playing = [1, 2]"
  by (simp add: eligible_seats_def two_playing_def mk_seat_def)

theorem positions_follow_seat_order_witness:
  "distinct (eligible_seats three_playing) \<and> 3 \<in> set (eligible_seats three_playing)
   \<and> 3 \<le> length (eligible_seats three_playing)
   \<and> get_player_positions three_playing 3 = Inr (1, 2, 3)
   \<and> distinct (eligible_seats two_playing) \<and> 2 \<in> set (eligible_seats two_playing)
   \<and> length (eligible_seats two_playing) = 2
   \<and> get_player_positions two_playing 2 = Inr (2, 1, 2)"
proof -
  have h3: "distinct (eligible_seats three_playing)" "3 \<in> set (eligible_seats three_playing)"
    by (simp_all add: eligible_three_playing)
  have h2: "distinct (eligible_seats two_playing)" "2 \<in> set (eligible_seats two_playing)"
    by (simp_all add: eligible_two_playing)
  have n: "next_eligible [1, 2, 3] 3 = 1" "next_eligible [1, 2, 3] 1 = 2" "next_eligible [1, 2, 3] 2 = 3"
    by (simp_all add: next_eligible_def)
  have a: "get_player_positions three_playing 3 = Inr (1, 2, 3)"
    using positions_follow_seat_order[OF h3] n by (simp add: eligible_three_playing)
  have b: "get_player_positions two_playing 2 = Inr (2, 1, 2)"
    using positions_follow_seat_order[OF h2] by (auto simp add: eligible_two_playing doubleton_eq_iff)
  show ?thesis using a b h3 h2 by (simp add: eligible_three_playing eligible_two_playing)
qed

subsection \<open>Which positions coincide\<close>

lemma shifted_mod_neq:
  assumes "a < b" "b - a < n"
  shows "(i + a) mod n \<noteq> (i + b) mod (n::nat)"
proof
  assume "(i + a) mod n = (i + b) mod n"
  then have "(i + b) mod n = (i + a) mod n" by simp
  moreover have "i + a \<le> i + b" using assms(1) by simp
  ultimately have "n dvd (i + b) - (i + a)" by (simp add: mod_eq_dvd_iff_nat)
  then have "n dvd b - a" by simp
  moreover have "0 < b - a" using assms(1) by simp
  ultimately have "n \<le> b - a" by (simp add: dvd_imp_le)
  with assms(2) show False by simp
qed

lemma nth_neq_of_index_neq:
  "distinct xs \<Longrightarrow> i < length xs \<Longrightarrow> j < length xs \<Longrightarrow> i \<noteq> j \<Longrightarrow> xs ! i \<noteq> xs ! j"
  by (simp add: nth_eq_iff_index_eq)

text \<open>
  C1 (as amended). Seat numbers are unique per table and the dealer seat is one of at
  least two playing seats. Then \<^verbatim>\<open>get_player_positions\<close> returns positions, and:
  heads-up, the small blind and the first to act are the button and the big blind is
  another seat; with three playing seats the button, small blind and big blind are
  pairwise different and the first to act is the button again; with four or more, the
  button, small blind, big blind and first to act are pairwise different.
\<close>

theorem positions_distinct_by_table_size:
  assumes "distinct (eligible_seats players)"
    and "dealer_seat \<in> set (eligible_seats players)"
    and "2 \<le> length (eligible_seats players)"
  shows "\<exists>sb bb utg. get_player_positions players dealer_seat = Inr (sb, bb, utg)
     \<and> (length (eligible_seats players) = 2 \<longrightarrow>
            sb = dealer_seat \<and> utg = dealer_seat \<and> bb \<noteq> dealer_seat)
     \<and> (length (eligible_seats players) = 3 \<longrightarrow>
            utg = dealer_seat \<and> distinct [dealer_seat, sb, bb])
     \<and> (4 \<le> length (eligible_seats players) \<longrightarrow>
            distinct [dealer_seat, sb, bb, utg])"
proof -
  let ?S = "player_seats players"
  let ?n = "length ?S"
  let ?i = "dealer_index ?S dealer_seat"
  have len: "length (eligible_seats players) = ?n" by (simp add: length_player_seats)
  have mem: "dealer_seat \<in> set ?S" using assms(2) by (simp add: set_player_seats)
  then have ne: "?S \<noteq> []" by auto
  then have npos: "0 < ?n" by simp
  have dS: "distinct ?S" using assms(1) by (simp add: distinct_player_seats)
  have i_lt: "?i < ?n" using ne by (rule dealer_index_lt)
  have at_i: "?S ! ?i = dealer_seat" using mem by (rule dealer_index_mem)
  have i0: "(?i + 0) mod ?n = ?i" using i_lt by simp
  have lt: "\<And>k. (?i + k) mod ?n < ?n" using npos by simp
  have neq: "?S ! ((?i + a) mod ?n) \<noteq> ?S ! ((?i + b) mod ?n)" if "a < b" "b - a < ?n" for a b
    using dS lt lt shifted_mod_neq[OF that] by (rule nth_neq_of_index_neq)
  show ?thesis
  proof (cases "?n = 2")
    case True
    have "?S ! ((?i + 0) mod ?n) \<noteq> ?S ! ((?i + 1) mod ?n)"
      using True by (intro neq) simp_all
    then have "?S ! ((?i + 1) mod 2) \<noteq> dealer_seat" using i0 at_i True by simp
    then show ?thesis using positions_two[OF True, of dealer_seat] at_i len True by simp
  next
    case False
    let ?sb = "?S ! ((?i + 1) mod ?n)"
    let ?bb = "?S ! ((?i + 2) mod ?n)"
    let ?utg = "?S ! ((?i + 3) mod ?n)"
    have n3: "3 \<le> ?n" using False assms(3) len by simp
    have pos: "get_player_positions players dealer_seat = Inr (?sb, ?bb, ?utg)"
      using False ne by (rule positions_many)
    have d_sb: "dealer_seat \<noteq> ?sb"
      using neq[of 0 1] n3 i0 at_i by simp
    have d_bb: "dealer_seat \<noteq> ?bb"
      using neq[of 0 2] n3 i0 at_i by simp
    have sb_bb: "?sb \<noteq> ?bb"
      using neq[of 1 2] n3 by simp
    have three: "?utg = dealer_seat" if "?n = 3"
    proof -
      have "(?i + 3) mod 3 = ?i" using i_lt that by simp
      then show ?thesis using that at_i by simp
    qed
    have four: "dealer_seat \<noteq> ?utg \<and> ?sb \<noteq> ?utg \<and> ?bb \<noteq> ?utg" if "4 \<le> ?n"
      using neq[of 0 3] neq[of 1 3] neq[of 2 3] that i0 at_i by simp
    show ?thesis using pos d_sb d_bb sb_bb three four False len by auto
  qed
qed

lemma eligible_four_playing: "eligible_seats four_playing = [1, 2, 3, 4]"
  by (simp add: eligible_seats_def four_playing_def three_playing_def mk_seat_def)

lemma eligible_one_playing: "eligible_seats one_playing = [1]"
  by (simp add: eligible_seats_def one_playing_def mk_seat_def)

lemma player_seats_three_playing: "player_seats three_playing = [1, 2, 3]"
  by (simp add: player_seats_def active_players_def three_playing_def mk_seat_def)

lemma positions_three_playing: "get_player_positions three_playing 1 = Inr (2, 3, 1)"
  using player_seats_three_playing by (simp add: positions_many dealer_index_def)

theorem positions_distinct_by_table_size_witness:
  "distinct (eligible_seats three_playing) \<and> 1 \<in> set (eligible_seats three_playing)
   \<and> length (eligible_seats three_playing) = 3
   \<and> (\<exists>sb bb. get_player_positions three_playing 1 = Inr (sb, bb, 1) \<and> distinct [1, sb, bb])
   \<and> distinct (eligible_seats four_playing) \<and> 1 \<in> set (eligible_seats four_playing)
   \<and> length (eligible_seats four_playing) = 4
   \<and> (\<exists>sb bb utg. get_player_positions four_playing 1 = Inr (sb, bb, utg)
         \<and> distinct [1, sb, bb, utg])"
proof -
  have h3: "distinct (eligible_seats three_playing)" "1 \<in> set (eligible_seats three_playing)"
    "2 \<le> length (eligible_seats three_playing)"
    by (simp_all add: eligible_three_playing)
  have h4: "distinct (eligible_seats four_playing)" "1 \<in> set (eligible_seats four_playing)"
    "2 \<le> length (eligible_seats four_playing)"
    by (simp_all add: eligible_four_playing)
  have a: "\<exists>sb bb. get_player_positions three_playing 1 = Inr (sb, bb, 1) \<and> distinct [1, sb, bb]"
    using positions_distinct_by_table_size[OF h3] by (auto simp add: eligible_three_playing)
  have b: "\<exists>sb bb utg. get_player_positions four_playing 1 = Inr (sb, bb, utg)
         \<and> distinct [1, sb, bb, utg]"
    using positions_distinct_by_table_size[OF h4] by (auto simp add: eligible_four_playing)
  show ?thesis using a b h3 h4 by (simp add: eligible_three_playing eligible_four_playing)
qed

text \<open>
  C1 as stated fails with three playing seats: with the button at seat 1 of the seats
  1, 2, 3 the first to act is seat 1, the button itself.
\<close>

theorem first_to_act_is_button_three_handed:
  "distinct (eligible_seats three_playing) \<and> length (eligible_seats three_playing) = 3
   \<and> 1 \<in> set (eligible_seats three_playing)
   \<and> get_player_positions three_playing 1 = Inr (2, 3, 1)
   \<and> \<not> (\<exists>sb bb utg. get_player_positions three_playing 1 = Inr (sb, bb, utg)
           \<and> distinct [1, sb, bb, utg])"
  by (simp add: eligible_three_playing positions_three_playing)

subsection \<open>Fewer than two playing seats\<close>

lemma positions_single:
  assumes "length (eligible_seats players) = 1"
  shows "get_player_positions players dealer_seat =
     Inr (hd (eligible_seats players), hd (eligible_seats players), hd (eligible_seats players))"
proof -
  let ?S = "player_seats players"
  have n1: "length ?S = 1" using assms by (simp add: length_player_seats)
  then have ne: "?S \<noteq> []" by auto
  have "set ?S = set (eligible_seats players)" by (rule set_player_seats)
  moreover have "set ?S = {hd ?S}" using n1 by (cases ?S) auto
  moreover have "set (eligible_seats players) = {hd (eligible_seats players)}"
    using assms by (cases "eligible_seats players") auto
  ultimately have hd_eq: "hd ?S = hd (eligible_seats players)" by simp
  have "?S ! 0 = hd ?S" using ne by (simp add: hd_conv_nth)
  then show ?thesis using positions_many[of players dealer_seat] n1 ne hd_eq by simp
qed

lemma positions_empty:
  assumes "eligible_seats players = []"
  shows "get_player_positions players dealer_seat = Inl ZeroDivisionError"
proof -
  have "length (player_seats players) = 0" using assms by (simp add: length_player_seats)
  then show ?thesis by (simp add: positions_none)
qed

lemma start_game_too_few_seats:
  assumes "fetch_game d code = Inr (Some gm)" "host_id gm = start_host_id"
    "g_status gm = ''waiting''" "length (seats_of_game d (g_id gm)) < 2"
  shows "start_game rand r d code =
     (Inl (HTTPException 400 ''Cannot start a game with fewer than 2 players.''), d)"
  using assms by (simp add: start_game_def Let_def)

text \<open>
  C4 (as amended). The check for too few players is \<^verbatim>\<open>start_game\<close>'s, made before
  any position is resolved: the host's request to start a waiting game whose table has
  fewer than 2 seats, of any status, is answered with HTTP 400 and the database is left
  as it was. \<^verbatim>\<open>get_player_positions\<close> has no check of its own and no
  \<^verbatim>\<open>InsufficientPlayers\<close> error; it does fail when no seat at all is playing.
\<close>

theorem too_few_players:
  "(fetch_game d code = Inr (Some gm) \<and> host_id gm = start_host_id
      \<and> g_status gm = ''waiting'' \<and> length (seats_of_game d (g_id gm)) < 2 \<longrightarrow>
      start_game rand r d code =
        (Inl (HTTPException 400 ''Cannot start a game with fewer than 2 players.''), d))
   \<and> (eligible_seats players = [] \<longrightarrow>
        (\<exists>e. get_player_positions players dealer_seat = Inl e))"
  using positions_empty start_game_too_few_seats by blast

lemma fetch_table_db:
  "fetch_game (table_db st stg rows) ''ABC123'' =
     Inr (Some \<lparr>g_id = 1, game_code = ''ABC123'', host_id = start_host_id,
                 g_status = st, settings = stg\<rparr>)"
  by (simp add: fetch_game_def table_db_def)

theorem too_few_players_witness:
  "length (seats_of_game (table_db ''waiting'' blinds_5_10 one_playing) 1) < 2
   \<and> start_game (\<lambda>i. 0) 0 (table_db ''waiting'' blinds_5_10 one_playing) ''ABC123'' =
       (Inl (HTTPException 400 ''Cannot start a game with fewer than 2 players.''),
        table_db ''waiting'' blinds_5_10 one_playing)
   \<and> eligible_seats [] = []
   \<and> (\<exists>e. get_player_positions [] 1 = Inl e)"
proof -
  let ?d = "table_db ''waiting'' blinds_5_10 one_playing"
  let ?g = "\<lparr>g_id = 1, game_code = ''ABC123'', host_id = start_host_id,
                 g_status = ''waiting'', settings = blinds_5_10\<rparr>"
  have s: "length (seats_of_game ?d 1) < 2"
    by (simp add: seats_of_game_def table_db_def one_playing_def)
  have e: "eligible_seats [] = []" by (simp add: eligible_seats_def)
  have b: "\<exists>e. get_player_positions [] 1 = Inl e"
    using too_few_players[of ?d "''ABC123''" ?g "\<lambda>i. 0" 0 "[]" 1] e by blast
  have c: "start_game (\<lambda>i. 0) 0 ?d ''ABC123'' =
       (Inl (HTTPException 400 ''Cannot start a game with fewer than 2 players.''), ?d)"
    using too_few_players[of ?d "''ABC123''" ?g "\<lambda>i. 0" 0 "[]" 1] s
    by (simp add: fetch_table_db)
  show ?thesis using b c s e by blast
qed

text \<open>
  C4 as stated fails with a single playing seat: the resolver returns positions instead
  of an error.
\<close>

theorem single_playing_seat_gets_positions:
  "length (eligible_seats one_playing) < 2
   \<and> get_player_positions one_playing 1 = Inr (1, 1, 1)"
  using positions_single[of one_playing 1] by (simp add: eligible_one_playing)

section \<open>Joining a game\<close>

lemma find_upto_Some:
  assumes "find P [1..m] = Some (n::int)"
  shows "1 \<le> n \<and> n \<le> m \<and> P n \<and> (\<forall>k. 1 \<le> k \<and> k < n \<longrightarrow> \<not> P k)"
proof -
  from assms obtain i where i: "i < length [1..m]" "P ([1..m] ! i)" "n = [1..m] ! i"
    and least: "\<forall>j<i. \<not> P ([1..m] ! j)"
    by (auto simp: find_Some_iff)
  from i(1) have im: "1 + int i \<le> m" by simp
  then have n: "n = 1 + int i" using i(3) by simp
  have "\<not> P k" if "1 \<le> k" "k < n" for k
  proof -
    let ?j = "nat (k - 1)"
    have j: "?j < i" using that n by simp
    have jk: "1 + int ?j = k" using that by simp
    then have "1 + int ?j \<le> m" using that n im by linarith
    then have "[1..m] ! ?j = 1 + int ?j" by simp
    then have "[1..m] ! ?j = k" using jk by simp
    with least j show ?thesis by auto
  qed
  then show ?thesis using i(2) n im by auto
qed

lemma first_available_seat_found:
  assumes "first_available_seat taken maxp \<noteq> - 1"
  shows "1 \<le> first_available_seat taken maxp \<and> first_available_seat taken maxp \<le> maxp
     \<and> first_available_seat taken maxp \<notin> taken
     \<and> (\<forall>k. 1 \<le> k \<and> k < first_available_seat taken maxp \<longrightarrow> k \<in> taken)"
proof (cases "find (\<lambda>seat_num. seat_num \<notin> taken) [1..maxp]")
  case None
  with assms show ?thesis by (simp add: first_available_seat_def)
next
  case (Some n)
  then have "first_available_seat taken maxp = n" by (simp add: first_available_seat_def)
  with find_upto_Some[OF Some] show ?thesis by simp
qed

lemma list_ex_user_id:
  "list_ex (\<lambda>s. user_id s = u) rows = (u \<in> user_id ` set rows)"
  by (induction rows) auto

lemma join_game_success:
  assumes "join_game d code = (Inr n, d')"
  shows "\<exists>gm. fetch_game d code = Inr (Some gm) \<and> g_status gm = ''waiting''
     \<and> int (length (seats_of_game d (g_id gm))) < max_players (settings gm)
     \<and> join_player_id \<notin> user_id ` set (seats_of_game d (g_id gm))
     \<and> 1 \<le> n \<and> n \<le> max_players (settings gm)
     \<and> n \<notin> seat_number ` set (seats_of_game d (g_id gm))
     \<and> (\<forall>k. 1 \<le> k \<and> k < n \<longrightarrow> k \<in> seat_number ` set (seats_of_game d (g_id gm)))
     \<and> d' = insert_seat (g_id gm) join_player_id n (buy_in (settings gm)) ''playing'' d"
proof -
  from assms obtain gm where gm: "fetch_game d code = Inr (Some gm)"
    by (auto simp: join_game_def split: sum.splits option.splits)
  let ?rows = "seats_of_game d (g_id gm)"
  let ?taken = "set (map seat_number ?rows)"
  let ?a = "first_available_seat ?taken (max_players (settings gm))"
  from assms gm have c: "g_status gm = ''waiting''"
    "\<not> max_players (settings gm) \<le> int (length ?rows)"
    "\<not> list_ex (\<lambda>s. user_id s = join_player_id) ?rows"
    "?a \<noteq> - 1" "n = ?a"
    "d' = insert_seat (g_id gm) join_player_id ?a (buy_in (settings gm)) ''playing'' d"
    by (auto simp: join_game_def Let_def split: if_splits)
  have "join_player_id \<notin> user_id ` set ?rows" using c(3) by (simp add: list_ex_user_id)
  moreover note first_available_seat_found[OF c(4)]
  ultimately show ?thesis using gm c by auto
qed

lemma join_game_failure_keeps_db:
  assumes "join_game d code = (Inl e, d')"
  shows "d' = d"
  using assms
  by (auto simp: join_game_def Let_def split: sum.splits option.splits if_splits)

lemma join_game_rejects:
  assumes "fetch_game d code = Inr (Some gm)"
  shows "g_status gm \<noteq> ''waiting'' \<Longrightarrow>
           join_game d code = (Inl (HTTPException 403 ''Game is already in progress.''), d)"
    and "g_status gm = ''waiting'' \<Longrightarrow>
         max_players (settings gm) \<le> int (length (seats_of_game d (g_id gm))) \<Longrightarrow>
           join_game d code = (Inl (HTTPException 403 ''Game is full.''), d)"
    and "g_status gm = ''waiting'' \<Longrightarrow>
         \<not> max_players (settings gm) \<le> int (length (seats_of_game d (g_id gm))) \<Longrightarrow>
         join_player_id \<in> user_id ` set (seats_of_game d (g_id gm)) \<Longrightarrow>
           join_game d code = (Inl (HTTPException 400 ''You are already in this game.''), d)"
  using assms by (simp_all add: join_game_def Let_def list_ex_user_id)

lemma le_foldr_max: "x \<in> set xs \<Longrightarrow> x \<le> foldr max xs (0::nat)"
  by (induction xs) (auto simp add: max_def)

lemma fresh_seat_id_unused: "fresh_seat_id d \<notin> seat_id ` set (seats d)"
proof
  assume "fresh_seat_id d \<in> seat_id ` set (seats d)"
  then have "fresh_seat_id d \<in> set (map seat_id (seats d))" by simp
  then have "fresh_seat_id d \<le> foldr max (map seat_id (seats d)) 0" by (rule le_foldr_max)
  then show False by (simp add: fresh_seat_id_def)
qed

lemma fetch_game_found:
  "(fetch_game d code = Inr (Some gm)) = (filter (\<lambda>g. game_code g = code) (games d) = [gm])"
  by (auto simp add: fetch_game_def split: list.splits)

lemma set_seats_of_game: "set (seats_of_game d gid) = {s \<in> set (seats d). game_id s = gid}"
  by (auto simp add: seats_of_game_def)

text \<open>
  A table with fewer seats than \<open>max_players\<close> has a free seat number in
  \<open>1..max_players\<close>: the loop over the range does not end with its sentinel.
\<close>

lemma first_available_seat_exists:
  assumes "finite taken" "int (card taken) < maxp"
  shows "first_available_seat taken maxp \<noteq> - 1"
proof (cases "find (\<lambda>seat_num. seat_num \<notin> taken) [1..maxp]")
  case None
  then have "\<forall>n\<in>set [1..maxp]. n \<in> taken" by (simp add: find_None_iff)
  then have "{1..maxp} \<subseteq> taken" by auto
  then have "card {1..maxp} \<le> card taken" using assms(1) by (rule card_mono[rotated])
  then have "nat maxp \<le> card taken" by simp
  then show ?thesis using assms(2) by linarith
next
  case (Some n)
  then have "first_available_seat taken maxp = n" by (simp add: first_available_seat_def)
  moreover have "1 \<le> n" using find_upto_Some[OF Some] by simp
  ultimately show ?thesis by simp
qed

lemma join_game_joins:
  assumes "filter (\<lambda>g. game_code g = code) (games d) = [gm]"
    and "g_status gm = ''waiting''"
    and "int (length (filter (\<lambda>s. game_id s = g_id gm) (seats d))) < max_players (settings gm)"
    and "join_player_id \<notin> user_id ` {s \<in> set (seats d). game_id s = g_id gm}"
  shows "\<exists>n k. join_game d code =
           (Inr n, d\<lparr>seats := seats d @
              [\<lparr>seat_id = k, game_id = g_id gm, user_id = join_player_id, seat_number = n,
                chip_count = buy_in (settings gm), status = ''playing'', cards = None\<rparr>]\<rparr>)
         \<and> k \<notin> seat_id ` set (seats d)
         \<and> 1 \<le> n \<and> n \<le> max_players (settings gm)
         \<and> n \<notin> seat_number ` {s \<in> set (seats d). game_id s = g_id gm}
         \<and> (\<forall>m. 1 \<le> m \<and> m < n \<longrightarrow>
               m \<in> seat_number ` {s \<in> set (seats d). game_id s = g_id gm})"
proof -
  let ?rows = "seats_of_game d (g_id gm)"
  let ?taken = "set (map seat_number ?rows)"
  let ?n = "first_available_seat ?taken (max_players (settings gm))"
  have f: "fetch_game d code = Inr (Some gm)" using assms(1) by (simp add: fetch_game_found)
  have notfull: "\<not> max_players (settings gm) \<le> int (length ?rows)"
    using assms(3) by (simp add: seats_of_game_def)
  have absent: "\<not> list_ex (\<lambda>s. user_id s = join_player_id) ?rows"
    using assms(4) by (simp add: list_ex_user_id set_seats_of_game)
  have "card ?taken \<le> length (map seat_number ?rows)" by (rule card_length)
  then have "int (card ?taken) < max_players (settings gm)" using notfull by simp
  then have found: "?n \<noteq> - 1" by (intro first_available_seat_exists) simp_all
  have run: "join_game d code =
      (Inr ?n, insert_seat (g_id gm) join_player_id ?n (buy_in (settings gm)) ''playing'' d)"
    using f assms(2) notfull absent found by (simp add: join_game_def Let_def)
  have taken: "?taken = seat_number ` {s \<in> set (seats d). game_id s = g_id gm}"
    by (simp add: set_seats_of_game)
  note props = first_available_seat_found[OF found, unfolded taken]
  have "join_game d code =
           (Inr ?n, d\<lparr>seats := seats d @
              [\<lparr>seat_id = fresh_seat_id d, game_id = g_id gm, user_id = join_player_id,
                seat_number = ?n, chip_count = buy_in (settings gm), status = ''playing'',
                cards = None\<rparr>]\<rparr>)"
    using run by (simp add: insert_seat_def)
  then show ?thesis using props fresh_seat_id_unused[of d] unfolding taken by blast
qed

lemma join_game_joined:
  assumes "join_game d code = (Inr n, d')"
  shows "\<exists>gm. filter (\<lambda>g. game_code g = code) (games d) = [gm]
     \<and> g_status gm = ''waiting''
     \<and> int (length (filter (\<lambda>s. game_id s = g_id gm) (seats d))) < max_players (settings gm)
     \<and> join_player_id \<notin> user_id ` {s \<in> set (seats d). game_id s = g_id gm}"
proof -
  from join_game_success[OF assms] obtain gm where
    "fetch_game d code = Inr (Some gm)" "g_status gm = ''waiting''"
    "int (length (seats_of_game d (g_id gm))) < max_players (settings gm)"
    "join_player_id \<notin> user_id ` set (seats_of_game d (g_id gm))"
    by blast
  then show ?thesis
    by (auto simp add: fetch_game_found set_seats_of_game seats_of_game_def)
qed

lemma join_game_refuses:
  assumes "filter (\<lambda>g. game_code g = code) (games d) = [gm]"
    and "g_status gm \<noteq> ''waiting''
       \<or> max_players (settings gm) \<le> int (length (filter (\<lambda>s. game_id s = g_id gm) (seats d)))
       \<or> join_player_id \<in> user_id ` {s \<in> set (seats d). game_id s = g_id gm}"
  shows "\<exists>c msg. join_game d code = (Inl (HTTPException c msg), d) \<and> (c = 400 \<or> c = 403)"
proof -
  have f: "fetch_game d code = Inr (Some gm)" using assms(1) by (simp add: fetch_game_found)
  show ?thesis
  proof (cases "g_status gm = ''waiting''")
    case False
    then show ?thesis using join_game_rejects(1)[OF f] by blast
  next
    case True
    show ?thesis
    proof (cases "max_players (settings gm) \<le> int (length (seats_of_game d (g_id gm)))")
      case full: True
      then show ?thesis using join_game_rejects(2)[OF f True] by blast
    next
      case False
      with assms(2) True have "join_player_id \<in> user_id ` set (seats_of_game d (g_id gm))"
        by (simp add: set_seats_of_game seats_of_game_def)
      then show ?thesis using join_game_rejects(3)[OF f True False] by blast
    qed
  qed
qed

text \<open>
  C9. A game is found by its code when exactly one row of \<^verbatim>\<open>games\<close> has it; the seats
  of its table are the rows of \<^verbatim>\<open>seats\<close> with its id. When the game is
  \<^verbatim>\<open>waiting\<close>, its table holds fewer than \<open>max_players\<close> seats and the player has
  no seat there, \<^verbatim>\<open>join_game\<close> succeeds: it returns the lowest seat number in
  \<open>1..max_players\<close> that no seat of the table has (so never a seat number already
  occupied there) and appends exactly one row, with an unused key, for the player at that
  seat with the buy-in. When the game is not \<^verbatim>\<open>waiting\<close> (403), the table already
  holds \<open>max_players\<close> seats or more (403), or the player already has a seat in the
  game (400), the request is rejected and the database left as it was. No failure of
  \<^verbatim>\<open>join_game\<close> inserts a seat, and it succeeds in no other case.
\<close>

theorem join_game_assigns_lowest_free_seat:
  "(filter (\<lambda>g. game_code g = code) (games d) = [gm]
      \<and> g_status gm = ''waiting''
      \<and> int (length (filter (\<lambda>s. game_id s = g_id gm) (seats d))) < max_players (settings gm)
      \<and> join_player_id \<notin> user_id ` {s \<in> set (seats d). game_id s = g_id gm}
    \<longrightarrow> (\<exists>n k. join_game d code =
           (Inr n, d\<lparr>seats := seats d @
              [\<lparr>seat_id = k, game_id = g_id gm, user_id = join_player_id, seat_number = n,
                chip_count = buy_in (settings gm), status = ''playing'', cards = None\<rparr>]\<rparr>)
         \<and> k \<notin> seat_id ` set (seats d)
         \<and> 1 \<le> n \<and> n \<le> max_players (settings gm)
         \<and> n \<notin> seat_number ` {s \<in> set (seats d). game_id s = g_id gm}
         \<and> (\<forall>m. 1 \<le> m \<and> m < n \<longrightarrow>
               m \<in> seat_number ` {s \<in> set (seats d). game_id s = g_id gm})))
   \<and> (filter (\<lambda>g. game_code g = code) (games d) = [gm]
      \<and> (g_status gm \<noteq> ''waiting''
         \<or> max_players (settings gm)
             \<le> int (length (filter (\<lambda>s. game_id s = g_id gm) (seats d)))
         \<or> join_player_id \<in> user_id ` {s \<in> set (seats d). game_id s = g_id gm})
    \<longrightarrow> (\<exists>c msg. join_game d code = (Inl (HTTPException c msg), d) \<and> (c = 400 \<or> c = 403)))
   \<and> (join_game d code = (Inl e, d'') \<longrightarrow> d'' = d)
   \<and> (join_game d code = (Inr n', d') \<longrightarrow>
        (\<exists>g. filter (\<lambda>g. game_code g = code) (games d) = [g]
           \<and> g_status g = ''waiting''
           \<and> int (length (filter (\<lambda>s. game_id s = g_id g) (seats d))) < max_players (settings g)
           \<and> join_player_id \<notin> user_id ` {s \<in> set (seats d). game_id s = g_id g}))"
proof (intro conjI impI)
  assume h: "filter (\<lambda>g. game_code g = code) (games d) = [gm]
      \<and> g_status gm = ''waiting''
      \<and> int (length (filter (\<lambda>s. game_id s = g_id gm) (seats d))) < max_players (settings gm)
      \<and> join_player_id \<notin> user_id ` {s \<in> set (seats d). game_id s = g_id gm}"
  then have h1: "filter (\<lambda>g. game_code g = code) (games d) = [gm]"
    and h2: "g_status gm = ''waiting''"
    and h3: "int (length (filter (\<lambda>s. game_id s = g_id gm) (seats d)))
               < max_players (settings gm)"
    and h4: "join_player_id \<notin> user_id ` {s \<in> set (seats d). game_id s = g_id gm}"
    by blast+
  show "\<exists>n k. join_game d code =
           (Inr n, d\<lparr>seats := seats d @
              [\<lparr>seat_id = k, game_id = g_id gm, user_id = join_player_id, seat_number = n,
                chip_count = buy_in (settings gm), status = ''playing'', cards = None\<rparr>]\<rparr>)
         \<and> k \<notin> seat_id ` set (seats d)
         \<and> 1 \<le> n \<and> n \<le> max_players (settings gm)
         \<and> n \<notin> seat_number ` {s \<in> set (seats d). game_id s = g_id gm}
         \<and> (\<forall>m. 1 \<le> m \<and> m < n \<longrightarrow>
               m \<in> seat_number ` {s \<in> set (seats d). game_id s = g_id gm})"
    using h1 h2 h3 h4 by (rule join_game_joins)
next
  assume h: "filter (\<lambda>g. game_code g = code) (games d) = [gm]
      \<and> (g_status gm \<noteq> ''waiting''
         \<or> max_players (settings gm)
             \<le> int (length (filter (\<lambda>s. game_id s = g_id gm) (seats d)))
         \<or> join_player_id \<in> user_id ` {s \<in> set (seats d). game_id s = g_id gm})"
  show "\<exists>c msg. join_game d code = (Inl (HTTPException c msg), d) \<and> (c = 400 \<or> c = 403)"
    using conjunct1[OF h] conjunct2[OF h] by (rule join_game_refuses)
next
  assume "join_game d code = (Inl e, d'')"
  then show "d'' = d" by (rule join_game_failure_keeps_db)
next
  assume "join_game d code = (Inr n', d')"
  then show "\<exists>g. filter (\<lambda>g. game_code g = code) (games d) = [g]
           \<and> g_status g = ''waiting''
           \<and> int (length (filter (\<lambda>s. game_id s = g_id g) (seats d))) < max_players (settings g)
           \<and> join_player_id \<notin> user_id ` {s \<in> set (seats d). game_id s = g_id g}"
    by (rule join_game_joined)
qed

lemma join_heads_up_table:
  "join_game two_tables_db ''ABC123''
     = (Inr 2, two_tables_db\<lparr>seats := seats two_tables_db @ [joined_seat]\<rparr>)"
  by code_simp

lemma join_full_table:
  "join_game (two_tables_db\<lparr>seats := seats two_tables_db @ [joined_seat]\<rparr>) ''ABC123''
     = (Inl (HTTPException 403 ''Game is full.''),
        two_tables_db\<lparr>seats := seats two_tables_db @ [joined_seat]\<rparr>)"
  by code_simp

theorem join_game_assigns_lowest_free_seat_witness:
  "filter (\<lambda>g. game_code g = ''ABC123'') (games two_tables_db)
     = [\<lparr>g_id = 1, game_code = ''ABC123'', host_id = start_host_id,
          g_status = ''waiting'', settings = heads_up_5_10\<rparr>]
   \<and> int (length (filter (\<lambda>s. game_id s = 1) (seats two_tables_db)))
       < max_players heads_up_5_10
   \<and> join_player_id \<notin> user_id ` {s \<in> set (seats two_tables_db). game_id s = 1}
   \<and> join_game two_tables_db ''ABC123''
       = (Inr 2, two_tables_db\<lparr>seats := seats two_tables_db @ [joined_seat]\<rparr>)
   \<and> 2 \<notin> seat_number ` {s \<in> set (seats two_tables_db). game_id s = 1}
   \<and> 1 \<in> seat_number ` {s \<in> set (seats two_tables_db). game_id s = 1}
   \<and> 2 \<in> seat_number ` set (seats two_tables_db)
   \<and> seat_id joined_seat \<notin> seat_id ` set (seats two_tables_db)
   \<and> max_players heads_up_5_10
       \<le> int (length (filter (\<lambda>s. game_id s = 1)
                        (seats (two_tables_db\<lparr>seats := seats two_tables_db @ [joined_seat]\<rparr>))))
   \<and> (\<exists>c msg. join_game (two_tables_db\<lparr>seats := seats two_tables_db @ [joined_seat]\<rparr>) ''ABC123''
         = (Inl (HTTPException c msg), two_tables_db\<lparr>seats := seats two_tables_db @ [joined_seat]\<rparr>)
         \<and> (c = 400 \<or> c = 403))"
proof -
  let ?G = "\<lparr>g_id = 1, game_code = ''ABC123'', host_id = start_host_id,
            g_status = ''waiting'', settings = heads_up_5_10\<rparr>"
  let ?F = "two_tables_db\<lparr>seats := seats two_tables_db @ [joined_seat]\<rparr>"
  have gid: "g_id ?G = 1" and stg: "settings ?G = heads_up_5_10"
    and waiting: "g_status ?G = ''waiting''" by simp_all
  have g: "filter (\<lambda>g. game_code g = ''ABC123'') (games two_tables_db) = [?G]"
    by (simp add: two_tables_db_def)
  have gF: "filter (\<lambda>g. game_code g = ''ABC123'') (games ?F) = [?G]"
    by (simp add: two_tables_db_def)
  have rows: "filter (\<lambda>s. game_id s = 1) (seats two_tables_db) = [mk_seat 1 1 100 ''playing'']"
    by (simp add: two_tables_db_def mk_seat_def)
  have "{s \<in> set (seats two_tables_db). game_id s = 1}
      = set (filter (\<lambda>s. game_id s = 1) (seats two_tables_db))" by simp
  then have set_rows:
    "{s \<in> set (seats two_tables_db). game_id s = 1} = {mk_seat 1 1 100 ''playing''}"
    unfolding rows by simp
  have room: "int (length (filter (\<lambda>s. game_id s = 1) (seats two_tables_db)))
       < max_players heads_up_5_10"
    unfolding rows by (simp add: heads_up_5_10_def)
  have absent: "join_player_id \<notin> user_id ` {s \<in> set (seats two_tables_db). game_id s = 1}"
    unfolding set_rows by (simp add: mk_seat_def join_player_id_def)
  have other: "2 \<in> seat_number ` set (seats two_tables_db)"
    by (simp add: two_tables_db_def mk_seat_def)
  have full: "max_players heads_up_5_10
       \<le> int (length (filter (\<lambda>s. game_id s = 1) (seats ?F)))"
    by (simp add: two_tables_db_def mk_seat_def joined_seat_def heads_up_5_10_def)
  note t = join_game_assigns_lowest_free_seat[of "''ABC123''" two_tables_db ?G,
      unfolded gid stg waiting]
  have "\<exists>n k. join_game two_tables_db ''ABC123'' =
           (Inr n, two_tables_db\<lparr>seats := seats two_tables_db @
              [\<lparr>seat_id = k, game_id = 1, user_id = join_player_id, seat_number = n,
                chip_count = buy_in heads_up_5_10, status = ''playing'', cards = None\<rparr>]\<rparr>)
         \<and> k \<notin> seat_id ` set (seats two_tables_db)
         \<and> 1 \<le> n \<and> n \<le> max_players heads_up_5_10
         \<and> n \<notin> seat_number ` {s \<in> set (seats two_tables_db). game_id s = 1}
         \<and> (\<forall>m. 1 \<le> m \<and> m < n \<longrightarrow>
               m \<in> seat_number ` {s \<in> set (seats two_tables_db). game_id s = 1})"
    by (rule mp[OF conjunct1[OF t]]) (intro conjI g room absent refl)
  then obtain n k where
    run: "join_game two_tables_db ''ABC123'' =
           (Inr n, two_tables_db\<lparr>seats := seats two_tables_db @
              [\<lparr>seat_id = k, game_id = 1, user_id = join_player_id, seat_number = n,
                chip_count = buy_in heads_up_5_10, status = ''playing'', cards = None\<rparr>]\<rparr>)"
    and k: "k \<notin> seat_id ` set (seats two_tables_db)"
    and free: "n \<notin> seat_number ` {s \<in> set (seats two_tables_db). game_id s = 1}"
    and low: "\<forall>m. 1 \<le> m \<and> m < n \<longrightarrow>
               m \<in> seat_number ` {s \<in> set (seats two_tables_db). game_id s = 1}"
    by blast
  from run have n2: "n = 2" unfolding join_heads_up_table by simp
  from run have "seats (two_tables_db\<lparr>seats := seats two_tables_db @ [joined_seat]\<rparr>)
      = seats (two_tables_db\<lparr>seats := seats two_tables_db @
              [\<lparr>seat_id = k, game_id = 1, user_id = join_player_id, seat_number = n,
                chip_count = buy_in heads_up_5_10, status = ''playing'', cards = None\<rparr>]\<rparr>)"
    unfolding join_heads_up_table by simp
  then have "joined_seat =
      \<lparr>seat_id = k, game_id = 1, user_id = join_player_id, seat_number = n,
        chip_count = buy_in heads_up_5_10, status = ''playing'', cards = None\<rparr>"
    by simp
  then have "seat_id joined_seat =
      seat_id \<lparr>seat_id = k, game_id = 1, user_id = join_player_id, seat_number = n,
        chip_count = buy_in heads_up_5_10, status = ''playing'', cards = None\<rparr>"
    by (rule arg_cong)
  then have "seat_id joined_seat = k" by simp
  then have key: "seat_id joined_seat \<notin> seat_id ` set (seats two_tables_db)" using k by simp
  have one: "1 \<in> seat_number ` {s \<in> set (seats two_tables_db). game_id s = 1}"
    using low n2 by simp
  have two: "2 \<notin> seat_number ` {s \<in> set (seats two_tables_db). game_id s = 1}"
    using free n2 by simp
  note tF = join_game_assigns_lowest_free_seat[of "''ABC123''" ?F ?G,
      unfolded gid stg waiting]
  have rej: "\<exists>c msg. join_game ?F ''ABC123'' = (Inl (HTTPException c msg), ?F)
      \<and> (c = 400 \<or> c = 403)"
    by (rule mp[OF conjunct1[OF conjunct2[OF tF]]]) (intro conjI gF disjI2 disjI1 full)
  show ?thesis
    by (intro conjI g room absent join_heads_up_table two one other key full rej)
qed

section \<open>Dealing\<close>

lemma pop_Inr: "xs \<noteq> [] \<Longrightarrow> pop xs = Inr (last xs, butlast xs)"
  by (simp add: pop_def)

lemma hole_cards_first:
  "2 \<le> length deck \<Longrightarrow> hole_cards deck 0 = [last deck, last (butlast deck)]"
proof -
  assume "2 \<le> length deck"
  then obtain a b zs where r: "rev deck = a # b # zs"
    by (cases "rev deck"; cases "tl (rev deck)") (auto simp: Suc_le_eq dest: arg_cong[where f=length])
  then have "deck = rev zs @ [b, a]" by (simp add: rev_swap [symmetric] rev_eq_Cons_iff)
  then show ?thesis using r by (simp add: hole_cards_def butlast_append)
qed

lemma rev_butlast_tl: "rev (butlast xs) = tl (rev xs)"
  using butlast_rev[of "rev xs"] by (simp add: rev_swap)

lemma hole_cards_next: "hole_cards (butlast (butlast deck)) i = hole_cards deck (Suc i)"
proof -
  have "rev (butlast (butlast deck)) = drop 2 (rev deck)"
    by (simp add: rev_butlast_tl drop_Suc numeral_2_eq_2)
  then show ?thesis by (simp add: hole_cards_def add.commute)
qed

lemma seats_update_seats:
  "seats (update_seats f key d) = map (\<lambda>row. if seat_id row = key then f row else row) (seats d)"
  by (simp add: update_seats_def)

lemma other_tables_update_seats:
  "games (update_seats f key d) = games d" "game_states (update_seats f key d) = game_states d"
  by (simp_all add: update_seats_def)

text \<open>
  With enough cards left the loop succeeds, leaves the deck without its last
  \<open>2 * length players\<close> cards, and has written to every row whose key is the key of
  the \<open>i\<close>-th player the pair \<open>hole_cards deck i\<close>.
\<close>

lemma deal_hole_cards_enough:
  assumes "2 * length players \<le> length deck" "distinct (map seat_id players)"
  shows "deal_hole_cards deck players d =
     (Inr (take (length deck - 2 * length players) deck),
      d\<lparr>seats := map (\<lambda>row. case index_of (map seat_id players) (seat_id row) of
                                None \<Rightarrow> row
                              | Some i \<Rightarrow> row\<lparr>cards := Some (hole_cards deck i)\<rparr>) (seats d)\<rparr>)"
  using assms
proof (induction players arbitrary: deck d)
  case Nil
  then show ?case by simp
next
  case (Cons p rest)
  let ?deck2 = "butlast (butlast deck)"
  let ?d1 = "update_seats (\<lambda>row. row\<lparr>cards := Some [last deck, last (butlast deck)]\<rparr>) (seat_id p) d"
  have len: "2 \<le> length deck" using Cons.prems(1) by simp
  have ne1: "deck \<noteq> []" using len by auto
  have "length (butlast deck) \<noteq> 0" using len by simp
  then have ne2: "butlast deck \<noteq> []" by (simp only: length_0_conv not_False_eq_True)
  note ne = ne1 ne2
  have step: "deal_hole_cards deck (p # rest) d = deal_hole_cards ?deck2 rest ?d1"
    using ne by (simp add: pop_Inr)
  have l2: "2 * length rest \<le> length ?deck2" using Cons.prems(1) by simp
  have dr: "distinct (map seat_id rest)" using Cons.prems(2) by simp
  have fresh: "seat_id p \<notin> set (map seat_id rest)" using Cons.prems(2) by simp
  have deck_eq: "take (length ?deck2 - 2 * length rest) ?deck2
      = take (length deck - 2 * length (p # rest)) deck"
    by (simp add: butlast_conv_take min_def)
  have rows: "map (\<lambda>row. case index_of (map seat_id rest) (seat_id row) of
                                None \<Rightarrow> row
                              | Some i \<Rightarrow> row\<lparr>cards := Some (hole_cards ?deck2 i)\<rparr>) (seats ?d1)
      = map (\<lambda>row. case index_of (map seat_id (p # rest)) (seat_id row) of
                                None \<Rightarrow> row
                              | Some i \<Rightarrow> row\<lparr>cards := Some (hole_cards deck i)\<rparr>) (seats d)"
    using fresh len
    by (auto simp add: seats_update_seats index_of_None hole_cards_first hole_cards_next
        split: option.splits)
  have "deal_hole_cards ?deck2 rest ?d1 =
     (Inr (take (length ?deck2 - 2 * length rest) ?deck2),
      ?d1\<lparr>seats := map (\<lambda>row. case index_of (map seat_id rest) (seat_id row) of
                                None \<Rightarrow> row
                              | Some i \<Rightarrow> row\<lparr>cards := Some (hole_cards ?deck2 i)\<rparr>) (seats ?d1)\<rparr>)"
    using l2 dr by (rule Cons.IH)
  then show ?case unfolding step deck_eq rows by (simp add: update_seats_def)
qed

lemma seats_update_game_state: "seats (update_game_state f key d) = seats d"
  by (simp add: update_game_state_def)

lemma deal_hole_cards_other_columns:
  "games (snd (deal_hole_cards deck players d)) = games d
   \<and> game_states (snd (deal_hole_cards deck players d)) = game_states d
   \<and> map chip_count (seats (snd (deal_hole_cards deck players d))) = map chip_count (seats d)
   \<and> map seat_id (seats (snd (deal_hole_cards deck players d))) = map seat_id (seats d)"
proof (induction players arbitrary: deck d)
  case Nil
  then show ?case by simp
next
  case (Cons p rest)
  show ?case
  proof (cases "pop deck")
    case (Inl e)
    then show ?thesis by simp
  next
    case (Inr a)
    then obtain c1 deck1 where a: "pop deck = Inr (c1, deck1)" by (cases a) auto
    show ?thesis
    proof (cases "pop deck1")
      case (Inl e)
      then show ?thesis using a by simp
    next
      case (Inr b)
      then obtain c2 deck2 where b: "pop deck1 = Inr (c2, deck2)" by (cases b) auto
      let ?d1 = "update_seats (\<lambda>row. row\<lparr>cards := Some [c1, c2]\<rparr>) (seat_id p) d"
      have "deal_hole_cards deck (p # rest) d = deal_hole_cards deck2 rest ?d1"
        using a b by simp
      moreover have "map chip_count (seats ?d1) = map chip_count (seats d)"
        "map seat_id (seats ?d1) = map seat_id (seats d)"
        by (simp_all add: seats_update_seats)
      ultimately show ?thesis
        using Cons.IH[of deck2 ?d1] by (simp add: other_tables_update_seats)
    qed
  qed
qed

lemma chip_update_keeps_cards:
  "map (\<lambda>row. (seat_id row, cards row)) (seats (update_seats (\<lambda>row. row\<lparr>chip_count := c\<rparr>) key d))
   = map (\<lambda>row. (seat_id row, cards row)) (seats d)"
  by (simp add: seats_update_seats)

lemma start_new_hand_keeps_cards:
  "map (\<lambda>row. (seat_id row, cards row)) (seats (snd (start_new_hand rand r gid players stg d)))
   = map (\<lambda>row. (seat_id row, cards row))
       (seats (snd (deal_hole_cards (shuffle_deck rand create_deck) players d)))"
  unfolding start_new_hand_def Let_def
  by (simp add: chip_update_keeps_cards seats_update_game_state
      split: prod.splits sum.splits option.splits)

lemma concat_hole_cards: "concat (map (hole_cards deck) [0..<n]) = take (2 * n) (rev deck)"
proof (induction n)
  case 0
  then show ?case by simp
next
  case (Suc n)
  have "take (2 * n + 2) (rev deck) = take (2 * n) (rev deck) @ take 2 (drop (2 * n) (rev deck))"
    by (rule take_add)
  then show ?case using Suc by (simp add: hole_cards_def)
qed

lemma length_hole_cards: "2 * i + 2 \<le> length deck \<Longrightarrow> length (hole_cards deck i) = 2"
  by (simp add: hole_cards_def)

lemma dealt_row_cards:
  assumes "2 * length players \<le> length deck" "distinct (map seat_id players)"
    and "i < length players"
    and "row \<in> set (seats (snd (deal_hole_cards deck players d)))"
    and "seat_id row = seat_id (players ! i)"
  shows "cards row = Some (hole_cards deck i)"
proof -
  have idx: "index_of (map seat_id players) (seat_id (players ! i)) = Some i"
    using index_of_nth[OF assms(2), of i] assms(3) by simp
  from assms(4) obtain row0 where r0: "row0 \<in> set (seats d)"
    and row: "row = (case index_of (map seat_id players) (seat_id row0) of
                       None \<Rightarrow> row0
                     | Some k \<Rightarrow> row0\<lparr>cards := Some (hole_cards deck k)\<rparr>)"
    unfolding deal_hole_cards_enough[OF assms(1,2)] by auto
  have "seat_id row = seat_id row0" using row by (simp split: option.splits)
  then have "index_of (map seat_id players) (seat_id row0) = Some i" using idx assms(5) by simp
  then show ?thesis using row by simp
qed

text \<open>
  C7. With at most 8 players (whose rows have different keys), dealing from the shuffled
  52-card deck never exhausts it: the loop ends with the deck less its top
  \<open>2 * length players\<close> cards (the top of the deck being the end of the list). After
  \<^verbatim>\<open>start_new_hand\<close>, the row of the \<open>i\<close>-th listed seat (every listed seat, the
  playing ones among them) holds exactly the two cards \<open>hole_cards deck i\<close>; these
  pairs, taken together, are the top \<open>2 * length players\<close> cards of the deck and are
  pairwise different.
\<close>

theorem two_distinct_hole_cards_per_seat:
  assumes "length players \<le> 8" and "distinct (map seat_id players)"
  shows "fst (deal_hole_cards (shuffle_deck rand create_deck) players d)
           = Inr (take (52 - 2 * length players) (shuffle_deck rand create_deck))
     \<and> (\<forall>i<length players.
          \<forall>row\<in>set (seats (snd (start_new_hand rand r gid players stg d))).
            seat_id row = seat_id (players ! i) \<longrightarrow>
              cards row = Some (hole_cards (shuffle_deck rand create_deck) i))
     \<and> (\<forall>i<length players. length (hole_cards (shuffle_deck rand create_deck) i) = 2)
     \<and> concat (map (hole_cards (shuffle_deck rand create_deck)) [0..<length players])
           = take (2 * length players) (rev (shuffle_deck rand create_deck))
     \<and> distinct (concat (map (hole_cards (shuffle_deck rand create_deck)) [0..<length players]))"
proof -
  let ?D = "shuffle_deck rand create_deck"
  let ?n = "length players"
  have lenD: "length ?D = 52" by (simp add: length_shuffle_deck length_create_deck)
  have distD: "distinct ?D" by (simp add: distinct_shuffle_deck distinct_create_deck)
  have enough: "2 * ?n \<le> length ?D" using assms(1) lenD by simp
  have a: "fst (deal_hole_cards ?D players d) = Inr (take (52 - 2 * ?n) ?D)"
    using deal_hole_cards_enough[OF enough assms(2), of d] lenD by simp
  have b: "cards row = Some (hole_cards ?D i)"
    if i: "i < ?n" and row: "row \<in> set (seats (snd (start_new_hand rand r gid players stg d)))"
      and key: "seat_id row = seat_id (players ! i)" for i row
  proof -
    from row have "(seat_id row, cards row)
        \<in> set (map (\<lambda>row. (seat_id row, cards row))
                 (seats (snd (start_new_hand rand r gid players stg d))))"
      by (simp add: image_iff) blast
    then have "(seat_id row, cards row)
        \<in> set (map (\<lambda>row. (seat_id row, cards row)) (seats (snd (deal_hole_cards ?D players d))))"
      by (simp only: start_new_hand_keeps_cards)
    then obtain row1 where r1: "row1 \<in> set (seats (snd (deal_hole_cards ?D players d)))"
      and same: "seat_id row1 = seat_id row" "cards row1 = cards row"
      by auto
    have "cards row1 = Some (hole_cards ?D i)"
      using enough assms(2) i r1 by (rule dealt_row_cards) (simp add: same key)
    then show ?thesis using same by simp
  qed
  have c: "length (hole_cards ?D i) = 2" if "i < ?n" for i
    using that assms(1) lenD by (intro length_hole_cards) simp
  have e: "distinct (take (2 * ?n) (rev ?D))" using distD by (simp add: distinct_take)
  show ?thesis using a b c e by (simp add: concat_hole_cards)
qed

lemma two_playing_keys: "length two_playing = 2" "distinct (map seat_id two_playing)"
  by (simp_all add: two_playing_def mk_seat_def)

lemma top_pair_unshuffled: "hole_cards (shuffle_deck (\<lambda>i. 0) create_deck) 0 = [''2H'', ''AS'']"
  by code_simp

lemma start_two_playing_draw_0:
  "start_new_hand (\<lambda>i. 0) 0 1 two_playing blinds_5_10 (table_db ''in_progress'' blinds_5_10 two_playing)
   = (Inr (),
      \<lparr>games = [\<lparr>g_id = 1, game_code = ''ABC123'', host_id = start_host_id,
                 g_status = ''in_progress'', settings = blinds_5_10\<rparr>],
       game_states = [\<lparr>gs_game_id = 1, dealer_position = Some 1, pot_size = 15, current_bet = 10,
                       community_cards = [], current_player_turn = Some (user_id (mk_seat 1 1 100 ''playing''))\<rparr>],
       seats = [(mk_seat 1 1 95 ''playing'')\<lparr>cards := Some [''2H'', ''AS'']\<rparr>,
                (mk_seat 2 2 90 ''playing'')\<lparr>cards := Some [''KS'', ''QS'']\<rparr>]\<rparr>)"
  by code_simp

theorem two_distinct_hole_cards_per_seat_witness:
  "length two_playing \<le> 8 \<and> distinct (map seat_id two_playing)
   \<and> fst (deal_hole_cards (shuffle_deck (\<lambda>i. 0) create_deck) two_playing
            (table_db ''in_progress'' blinds_5_10 two_playing))
        = Inr (take 48 (shuffle_deck (\<lambda>i. 0) create_deck))
   \<and> cards (hd (seats (snd (start_new_hand (\<lambda>i. 0) 0 1 two_playing blinds_5_10
                              (table_db ''in_progress'' blinds_5_10 two_playing)))))
        = Some [''2H'', ''AS'']
   \<and> distinct (concat (map (hole_cards (shuffle_deck (\<lambda>i. 0) create_deck)) [0..<2]))"
proof -
  let ?after = "snd (start_new_hand (\<lambda>i. 0) 0 1 two_playing blinds_5_10
                       (table_db ''in_progress'' blinds_5_10 two_playing))"
  have h1: "length two_playing \<le> 8" by (simp add: two_playing_keys)
  have k: "seat_id (two_playing ! 0) = 1" by (simp add: two_playing_def mk_seat_def)
  have first: "hd (seats ?after) \<in> set (seats ?after)" "seat_id (hd (seats ?after)) = 1"
    unfolding start_two_playing_draw_0 by (simp_all add: mk_seat_def)
  note t = two_distinct_hole_cards_per_seat[OF h1 two_playing_keys(2),
      of "\<lambda>i. 0" "table_db ''in_progress'' blinds_5_10 two_playing" 0 1 blinds_5_10,
      unfolded two_playing_keys(1)]
  from t have a: "fst (deal_hole_cards (shuffle_deck (\<lambda>i. 0) create_deck) two_playing
            (table_db ''in_progress'' blinds_5_10 two_playing))
        = Inr (take 48 (shuffle_deck (\<lambda>i. 0) create_deck))"
    by simp
  from t have "\<forall>row\<in>set (seats ?after).
          seat_id row = seat_id (two_playing ! 0) \<longrightarrow>
            cards row = Some (hole_cards (shuffle_deck (\<lambda>i. 0) create_deck) 0)"
    by simp
  then have b: "cards (hd (seats ?after)) = Some [''2H'', ''AS'']"
    using first by (simp only: k top_pair_unshuffled)
  from t have c: "distinct (concat (map (hole_cards (shuffle_deck (\<lambda>i. 0) create_deck)) [0..<2]))"
    by blast
  show ?thesis using h1 two_playing_keys(2) a b c by blast
qed

section \<open>Starting a hand\<close>

subsection \<open>The dealer seat\<close>

lemma choice_Inr:
  "choice r xs = Inr x \<Longrightarrow> xs \<noteq> [] \<and> x = xs ! (r mod length xs)"
  by (simp add: choice_def split: if_splits)

lemma game_states_update_game_state:
  "game_states (update_game_state f key d)
     = map (\<lambda>row. if gs_game_id row = key then f row else row) (game_states d)"
  by (simp add: update_game_state_def)

lemma start_new_hand_success:
  assumes "start_new_hand rand r gid players stg d = (Inr (), d')"
  obtains deck d1 dealer_seat sb_seat bb_seat utg_seat sb_player bb_player utg_player where
    "deal_hole_cards (shuffle_deck rand create_deck) players d = (Inr deck, d1)"
    "choice r (map seat_number players) = Inr dealer_seat"
    "get_player_positions players dealer_seat = Inr (sb_seat, bb_seat, utg_seat)"
    "find (\<lambda>p. seat_number p = sb_seat) players = Some sb_player"
    "find (\<lambda>p. seat_number p = bb_seat) players = Some bb_player"
    "find (\<lambda>p. seat_number p = utg_seat) players = Some utg_player"
    "d' = update_game_state
            (\<lambda>row. row\<lparr>dealer_position := Some dealer_seat,
                        pot_size := small_blind stg + big_blind stg,
                        current_bet := big_blind stg, community_cards := [],
                        current_player_turn := Some (user_id utg_player)\<rparr>) gid
            (update_seats (\<lambda>row. row\<lparr>chip_count := chip_count bb_player - big_blind stg\<rparr>)
               (seat_id bb_player)
               (update_seats (\<lambda>row. row\<lparr>chip_count := chip_count sb_player - small_blind stg\<rparr>)
                  (seat_id sb_player) d1))"
proof -
  obtain res1 d1 where deal: "deal_hole_cards (shuffle_deck rand create_deck) players d = (res1, d1)"
    by (cases "deal_hole_cards (shuffle_deck rand create_deck) players d") auto
  from assms deal obtain deck where r1: "res1 = Inr deck"
    by (cases res1) (simp_all add: start_new_hand_def)
  from assms deal r1 obtain dealer_seat where c: "choice r (map seat_number players) = Inr dealer_seat"
    by (cases "choice r (map seat_number players)") (simp_all add: start_new_hand_def)
  from assms deal r1 c obtain sb_seat bb_seat utg_seat where
    g: "get_player_positions players dealer_seat = Inr (sb_seat, bb_seat, utg_seat)"
    by (cases "get_player_positions players dealer_seat") (auto simp add: start_new_hand_def)
  from assms deal r1 c g obtain sb_player where
    f1: "find (\<lambda>p. seat_number p = sb_seat) players = Some sb_player"
    by (cases "find (\<lambda>p. seat_number p = sb_seat) players")
      (simp_all add: start_new_hand_def Let_def)
  from assms deal r1 c g f1 obtain bb_player where
    f2: "find (\<lambda>p. seat_number p = bb_seat) players = Some bb_player"
    by (cases "find (\<lambda>p. seat_number p = bb_seat) players")
      (simp_all add: start_new_hand_def Let_def)
  from assms deal r1 c g f1 f2 obtain utg_player where
    f3: "find (\<lambda>p. seat_number p = utg_seat) players = Some utg_player"
    by (cases "find (\<lambda>p. seat_number p = utg_seat) players")
      (simp_all add: start_new_hand_def Let_def)
  from assms deal r1 c g f1 f2 f3 have
    "d' = update_game_state
            (\<lambda>row. row\<lparr>dealer_position := Some dealer_seat,
                        pot_size := small_blind stg + big_blind stg,
                        current_bet := big_blind stg, community_cards := [],
                        current_player_turn := Some (user_id utg_player)\<rparr>) gid
            (update_seats (\<lambda>row. row\<lparr>chip_count := chip_count bb_player - big_blind stg\<rparr>)
               (seat_id bb_player)
               (update_seats (\<lambda>row. row\<lparr>chip_count := chip_count sb_player - small_blind stg\<rparr>)
                  (seat_id sb_player) d1))"
    by (simp add: start_new_hand_def Let_def)
  with deal r1 c g f1 f2 f3 show thesis by (intro that) simp_all
qed

text \<open>
  C6 (as amended). The dealer seat of the first hand is not determined by the players
  and the settings: \<^verbatim>\<open>start_new_hand\<close> takes it with \<^verbatim>\<open>random.choice\<close> from the
  seat numbers of all listed seats, of any status. Given the generator's draw \<open>r\<close>, a
  hand that starts records as dealer position the seat number at index
  \<open>r mod length players\<close> of the player list, which is a seat number of the list.
\<close>

theorem dealer_seat_is_the_random_draw:
  assumes "start_new_hand rand r gid players stg d = (Inr (), d')"
  shows "players \<noteq> []
     \<and> seat_number (players ! (r mod length players)) \<in> seat_number ` set players
     \<and> (\<forall>gs\<in>set (game_states d'). gs_game_id gs = gid \<longrightarrow>
           dealer_position gs = Some (seat_number (players ! (r mod length players))))"
proof -
  from assms obtain deck d1 dealer_seat sb_seat bb_seat utg_seat sb_player bb_player utg_player
    where "deal_hole_cards (shuffle_deck rand create_deck) players d = (Inr deck, d1)"
    and c: "choice r (map seat_number players) = Inr dealer_seat"
    and "get_player_positions players dealer_seat = Inr (sb_seat, bb_seat, utg_seat)"
    and "find (\<lambda>p. seat_number p = sb_seat) players = Some sb_player"
    and "find (\<lambda>p. seat_number p = bb_seat) players = Some bb_player"
    and "find (\<lambda>p. seat_number p = utg_seat) players = Some utg_player"
    and d'_full: "d' = update_game_state
            (\<lambda>row. row\<lparr>dealer_position := Some dealer_seat,
                        pot_size := small_blind stg + big_blind stg,
                        current_bet := big_blind stg, community_cards := [],
                        current_player_turn := Some (user_id utg_player)\<rparr>) gid
            (update_seats (\<lambda>row. row\<lparr>chip_count := chip_count bb_player - big_blind stg\<rparr>)
               (seat_id bb_player)
               (update_seats (\<lambda>row. row\<lparr>chip_count := chip_count sb_player - small_blind stg\<rparr>)
                  (seat_id sb_player) d1))"
    by (rule start_new_hand_success)
  define f where "f = (\<lambda>row :: game_state. row\<lparr>dealer_position := Some dealer_seat,
                        pot_size := small_blind stg + big_blind stg,
                        current_bet := big_blind stg, community_cards := [],
                        current_player_turn := Some (user_id utg_player)\<rparr>)"
  define d3 where "d3 = update_seats (\<lambda>row. row\<lparr>chip_count := chip_count bb_player - big_blind stg\<rparr>)
               (seat_id bb_player)
               (update_seats (\<lambda>row. row\<lparr>chip_count := chip_count sb_player - small_blind stg\<rparr>)
                  (seat_id sb_player) d1)"
  have f: "\<And>row. dealer_position (f row) = Some dealer_seat" by (simp add: f_def)
  have d': "d' = update_game_state f gid d3" using d'_full by (simp add: f_def d3_def)
  from choice_Inr[OF c] have ne: "players \<noteq> []"
    and ds: "dealer_seat = map seat_number players ! (r mod length players)" by simp_all
  have lt: "r mod length players < length players" using ne by simp
  then have ds': "dealer_seat = seat_number (players ! (r mod length players))"
    using ds by simp
  have mem: "seat_number (players ! (r mod length players)) \<in> seat_number ` set players"
    using lt by simp
  have "dealer_position gs = Some (seat_number (players ! (r mod length players)))"
    if gs: "gs \<in> set (game_states d')" and key: "gs_game_id gs = gid" for gs
  proof -
    from gs obtain row where row: "row \<in> set (game_states d3)"
      and eq: "gs = (if gs_game_id row = gid then f row else row)"
      unfolding d' game_states_update_game_state by auto
    show ?thesis
    proof (cases "gs_game_id row = gid")
      case True
      then show ?thesis using eq f ds' by simp
    next
      case False
      then show ?thesis using eq key by simp
    qed
  qed
  then show ?thesis using ne mem by blast
qed

lemma start_two_playing_draw_1:
  "start_new_hand (\<lambda>i. 0) 1 1 two_playing blinds_5_10 (table_db ''in_progress'' blinds_5_10 two_playing)
   = (Inr (),
      \<lparr>games = [\<lparr>g_id = 1, game_code = ''ABC123'', host_id = start_host_id,
                 g_status = ''in_progress'', settings = blinds_5_10\<rparr>],
       game_states = [\<lparr>gs_game_id = 1, dealer_position = Some 2, pot_size = 15, current_bet = 10,
                       community_cards = [], current_player_turn = Some (user_id (mk_seat 2 2 100 ''playing''))\<rparr>],
       seats = [(mk_seat 1 1 90 ''playing'')\<lparr>cards := Some [''2H'', ''AS'']\<rparr>,
                (mk_seat 2 2 95 ''playing'')\<lparr>cards := Some [''KS'', ''QS'']\<rparr>]\<rparr>)"
  by code_simp

theorem dealer_seat_is_the_random_draw_witness:
  "start_new_hand (\<lambda>i. 0) 1 1 two_playing blinds_5_10
       (table_db ''in_progress'' blinds_5_10 two_playing)
     = (Inr (), snd (start_new_hand (\<lambda>i. 0) 1 1 two_playing blinds_5_10
                       (table_db ''in_progress'' blinds_5_10 two_playing)))
   \<and> seat_number (two_playing ! (1 mod length two_playing)) = 2
   \<and> map dealer_position (game_states (snd (start_new_hand (\<lambda>i. 0) 1 1 two_playing blinds_5_10
                       (table_db ''in_progress'' blinds_5_10 two_playing)))) = [Some 2]
   \<and> dealer_position (hd (game_states (snd (start_new_hand (\<lambda>i. 0) 1 1 two_playing blinds_5_10
                       (table_db ''in_progress'' blinds_5_10 two_playing)))))
       = Some (seat_number (two_playing ! (1 mod length two_playing)))"
proof -
  let ?run = "start_new_hand (\<lambda>i. 0) 1 1 two_playing blinds_5_10
                (table_db ''in_progress'' blinds_5_10 two_playing)"
  have ok: "?run = (Inr (), snd ?run)" unfolding start_two_playing_draw_1 by simp
  have row: "hd (game_states (snd ?run)) \<in> set (game_states (snd ?run))"
    "gs_game_id (hd (game_states (snd ?run))) = 1"
    unfolding start_two_playing_draw_1 by simp_all
  have s: "seat_number (two_playing ! (1 mod length two_playing)) = 2"
    by (simp add: two_playing_def mk_seat_def)
  have m: "map dealer_position (game_states (snd ?run)) = [Some 2]"
    unfolding start_two_playing_draw_1 by simp
  have "dealer_position (hd (game_states (snd ?run)))
       = Some (seat_number (two_playing ! (1 mod length two_playing)))"
    using dealer_seat_is_the_random_draw[OF ok] row by blast
  then show ?thesis using ok s m by blast
qed

text \<open>
  C6 as stated fails: two runs of \<^verbatim>\<open>start_new_hand\<close> on the same players, settings
  and database, which differ only in the generator's draw, record different dealer
  seats.
\<close>

theorem same_table_different_dealer:
  "fst (start_new_hand (\<lambda>i. 0) 0 1 two_playing blinds_5_10
          (table_db ''in_progress'' blinds_5_10 two_playing)) = Inr ()
   \<and> fst (start_new_hand (\<lambda>i. 0) 1 1 two_playing blinds_5_10
          (table_db ''in_progress'' blinds_5_10 two_playing)) = Inr ()
   \<and> map dealer_position (game_states (snd (start_new_hand (\<lambda>i. 0) 0 1 two_playing blinds_5_10
          (table_db ''in_progress'' blinds_5_10 two_playing)))) = [Some 1]
   \<and> map dealer_position (game_states (snd (start_new_hand (\<lambda>i. 0) 1 1 two_playing blinds_5_10
          (table_db ''in_progress'' blinds_5_10 two_playing)))) = [Some 2]"
  unfolding start_two_playing_draw_0 start_two_playing_draw_1 by simp

subsection \<open>Chip counts after the blinds\<close>

lemma chip_counts_after_deal:
  "(\<forall>row\<in>set (seats (snd (deal_hole_cards deck players d))). 0 \<le> chip_count row)
     = (\<forall>row\<in>set (seats d). 0 \<le> chip_count row)"
proof -
  have "(\<forall>row\<in>set (seats (snd (deal_hole_cards deck players d))). 0 \<le> chip_count row)
      = (\<forall>c\<in>set (map chip_count (seats (snd (deal_hole_cards deck players d)))). 0 \<le> c)"
    by simp
  also have "\<dots> = (\<forall>c\<in>set (map chip_count (seats d)). 0 \<le> c)"
    by (simp only: deal_hole_cards_other_columns)
  also have "\<dots> = (\<forall>row\<in>set (seats d). 0 \<le> chip_count row)" by simp
  finally show ?thesis .
qed

lemma chip_update_nonneg:
  assumes "\<forall>row\<in>set (seats d). 0 \<le> chip_count row" "0 \<le> c"
  shows "\<forall>row\<in>set (seats (update_seats (\<lambda>row. row\<lparr>chip_count := c\<rparr>) key d)). 0 \<le> chip_count row"
  using assms by (auto simp add: seats_update_seats)

lemma start_new_hand_blinds_posted:
  assumes "choice r (map seat_number players) = Inr dealer_seat"
    and "get_player_positions players dealer_seat = Inr (sb_seat, bb_seat, utg_seat)"
    and "find (\<lambda>p. seat_number p = sb_seat) players = Some sb_player"
    and "find (\<lambda>p. seat_number p = bb_seat) players = Some bb_player"
  shows "seats (snd (start_new_hand rand r gid players stg d))
           = seats (snd (deal_hole_cards (shuffle_deck rand create_deck) players d))
       \<or> seats (snd (start_new_hand rand r gid players stg d))
           = seats (update_seats (\<lambda>row. row\<lparr>chip_count := chip_count bb_player - big_blind stg\<rparr>)
               (seat_id bb_player)
               (update_seats (\<lambda>row. row\<lparr>chip_count := chip_count sb_player - small_blind stg\<rparr>)
                  (seat_id sb_player)
                  (snd (deal_hole_cards (shuffle_deck rand create_deck) players d))))"
  using assms unfolding start_new_hand_def Let_def
  by (simp add: seats_update_game_state split: prod.splits sum.splits option.splits)

lemma start_new_hand_nonneg:
  assumes "\<forall>row\<in>set (seats d). 0 \<le> chip_count row"
    and "choice r (map seat_number players) = Inr dealer_seat"
    and "get_player_positions players dealer_seat = Inr (sb_seat, bb_seat, utg_seat)"
    and "find (\<lambda>p. seat_number p = sb_seat) players = Some sb_player"
    and "find (\<lambda>p. seat_number p = bb_seat) players = Some bb_player"
    and "small_blind stg \<le> chip_count sb_player"
    and "big_blind stg \<le> chip_count bb_player"
  shows "\<forall>row\<in>set (seats (snd (start_new_hand rand r gid players stg d))). 0 \<le> chip_count row"
proof -
  let ?d1 = "snd (deal_hole_cards (shuffle_deck rand create_deck) players d)"
  have n1: "\<forall>row\<in>set (seats ?d1). 0 \<le> chip_count row"
    using assms(1) by (simp only: chip_counts_after_deal)
  have n2: "\<forall>row\<in>set (seats (update_seats
                (\<lambda>row. row\<lparr>chip_count := chip_count sb_player - small_blind stg\<rparr>)
                (seat_id sb_player) ?d1)). 0 \<le> chip_count row"
    using chip_update_nonneg[OF n1, of "chip_count sb_player - small_blind stg" "seat_id sb_player"]
      assms(6) by simp
  have n3: "\<forall>row\<in>set (seats (update_seats
                (\<lambda>row. row\<lparr>chip_count := chip_count bb_player - big_blind stg\<rparr>)
                (seat_id bb_player)
                (update_seats
                  (\<lambda>row. row\<lparr>chip_count := chip_count sb_player - small_blind stg\<rparr>)
                  (seat_id sb_player) ?d1))). 0 \<le> chip_count row"
    using chip_update_nonneg[OF n2, of "chip_count bb_player - big_blind stg" "seat_id bb_player"]
      assms(7) by simp
  from start_new_hand_blinds_posted[OF assms(2-5), of rand gid stg d] n1 n3
  show ?thesis by (elim disjE) simp_all
qed

lemma join_game_nonneg:
  assumes "\<forall>row\<in>set (seats d). 0 \<le> chip_count row"
    and "\<forall>g\<in>set (games d). 0 \<le> buy_in (settings g)"
  shows "\<forall>row\<in>set (seats (snd (join_game d code))). 0 \<le> chip_count row"
proof (cases "fst (join_game d code)")
  case (Inl e)
  then have "join_game d code = (Inl e, snd (join_game d code))" by (simp add: prod_eq_iff)
  then have "snd (join_game d code) = d" by (rule join_game_failure_keeps_db)
  then show ?thesis using assms(1) by simp
next
  case (Inr n)
  then have "join_game d code = (Inr n, snd (join_game d code))" by (simp add: prod_eq_iff)
  from join_game_success[OF this] obtain gm where
    gm: "fetch_game d code = Inr (Some gm)"
    and d': "snd (join_game d code)
              = insert_seat (g_id gm) join_player_id n (buy_in (settings gm)) ''playing'' d"
    by blast
  have one: "filter (\<lambda>g. game_code g = code) (games d) = [gm]"
    using gm by (auto simp add: fetch_game_def split: list.splits)
  have "gm \<in> set (filter (\<lambda>g. game_code g = code) (games d))"
    unfolding one by simp
  then have "gm \<in> set (games d)" by simp
  then have "0 \<le> buy_in (settings gm)" using assms(2) by simp
  then show ?thesis using assms(1) unfolding d' by (auto simp add: insert_seat_def)
qed

text \<open>
  C5 (as amended). \<^verbatim>\<open>start_new_hand\<close> subtracts the blinds with no floor: it writes
  \<open>chip_count - small_blind\<close> to the small-blind seat and \<open>chip_count - big_blind\<close> to
  the big-blind seat. So it keeps every seat's chip count at or above zero provided no
  chip count is negative beforehand, the seat it takes the small blind from holds at
  least the small blind, and the seat it takes the big blind from holds at least the
  big blind. \<^verbatim>\<open>join_game\<close> changes no chip count and adds a seat holding the buy-in,
  so it keeps chip counts at or above zero when no buy-in is negative.
\<close>

theorem chip_counts_stay_nonnegative:
  "((\<forall>row\<in>set (seats d). 0 \<le> chip_count row)
      \<and> choice r (map seat_number players) = Inr dealer_seat
      \<and> get_player_positions players dealer_seat = Inr (sb_seat, bb_seat, utg_seat)
      \<and> find (\<lambda>p. seat_number p = sb_seat) players = Some sb_player
      \<and> find (\<lambda>p. seat_number p = bb_seat) players = Some bb_player
      \<and> small_blind stg \<le> chip_count sb_player
      \<and> big_blind stg \<le> chip_count bb_player
      \<longrightarrow> (\<forall>row\<in>set (seats (snd (start_new_hand rand r gid players stg d))).
             0 \<le> chip_count row))
   \<and> ((\<forall>row\<in>set (seats d). 0 \<le> chip_count row)
      \<and> (\<forall>g\<in>set (games d). 0 \<le> buy_in (settings g))
      \<longrightarrow> (\<forall>row\<in>set (seats (snd (join_game d code))). 0 \<le> chip_count row))"
  using start_new_hand_nonneg[of d r players dealer_seat sb_seat bb_seat utg_seat
      sb_player bb_player stg rand gid] join_game_nonneg[of d code]
  by blast

lemma positions_two_playing: "get_player_positions two_playing 1 = Inr (1, 2, 1)"
  by code_simp

lemma blind_seats_two_playing:
  "choice 0 (map seat_number two_playing) = Inr 1"
  "find (\<lambda>p. seat_number p = 1) two_playing = Some (mk_seat 1 1 100 ''playing'')"
  "find (\<lambda>p. seat_number p = 2) two_playing = Some (mk_seat 2 2 100 ''playing'')"
  by (simp_all add: choice_def two_playing_def mk_seat_def)

theorem chip_counts_stay_nonnegative_witness:
  "list_all (\<lambda>row. 0 \<le> chip_count row) (seats (table_db ''in_progress'' blinds_5_10 two_playing))
   \<and> choice 0 (map seat_number two_playing) = Inr 1
   \<and> get_player_positions two_playing 1 = Inr (1, 2, 1)
   \<and> small_blind blinds_5_10 \<le> chip_count (mk_seat 1 1 100 ''playing'')
   \<and> big_blind blinds_5_10 \<le> chip_count (mk_seat 2 2 100 ''playing'')
   \<and> map chip_count (seats (snd (start_new_hand (\<lambda>i. 0) 0 1 two_playing blinds_5_10
                                  (table_db ''in_progress'' blinds_5_10 two_playing)))) = [95, 90]
   \<and> list_all (\<lambda>row. 0 \<le> chip_count row)
         (seats (snd (start_new_hand (\<lambda>i. 0) 0 1 two_playing blinds_5_10
                        (table_db ''in_progress'' blinds_5_10 two_playing))))
   \<and> list_all (\<lambda>g. 0 \<le> buy_in (settings g)) (games (table_db ''waiting'' blinds_5_10 two_playing))
   \<and> list_all (\<lambda>row. 0 \<le> chip_count row)
         (seats (snd (join_game (table_db ''waiting'' blinds_5_10 two_playing) ''ABC123'')))"
proof -
  let ?d = "table_db ''in_progress'' blinds_5_10 two_playing"
  let ?w = "table_db ''waiting'' blinds_5_10 two_playing"
  have rows: "\<forall>row\<in>set (seats ?d). 0 \<le> chip_count row"
    "\<forall>row\<in>set (seats ?w). 0 \<le> chip_count row"
    by (simp_all add: table_db_def two_playing_def mk_seat_def)
  have buy: "\<forall>g\<in>set (games ?w). 0 \<le> buy_in (settings g)"
    by (simp add: table_db_def blinds_5_10_def)
  have blinds: "small_blind blinds_5_10 \<le> chip_count (mk_seat 1 1 100 ''playing'')"
    "big_blind blinds_5_10 \<le> chip_count (mk_seat 2 2 100 ''playing'')"
    by (simp_all add: blinds_5_10_def mk_seat_def)
  note t = chip_counts_stay_nonnegative[of ?d 0 two_playing 1 1 2 1
      "mk_seat 1 1 100 ''playing''" "mk_seat 2 2 100 ''playing''" blinds_5_10 "\<lambda>i. 0" 1]
  have a: "\<forall>row\<in>set (seats (snd (start_new_hand (\<lambda>i. 0) 0 1 two_playing blinds_5_10 ?d))).
             0 \<le> chip_count row"
    using t rows(1) blind_seats_two_playing positions_two_playing blinds by blast
  have b: "\<forall>row\<in>set (seats (snd (join_game ?w ''ABC123''))). 0 \<le> chip_count row"
    using chip_counts_stay_nonnegative[of ?w _ _ _ _ _ _ _ _ _ _ _ "''ABC123''"] rows(2) buy
    by blast
  have c: "map chip_count (seats (snd (start_new_hand (\<lambda>i. 0) 0 1 two_playing blinds_5_10 ?d)))
      = [95, 90]"
    unfolding start_two_playing_draw_0 by (simp add: mk_seat_def)
  show ?thesis
    using a b c rows buy blinds blind_seats_two_playing(1) positions_two_playing
    by (simp only: list_all_iff simp_thms)
qed

text \<open>
  C5 as stated fails: a table whose buy-in is below the blinds passes the settings'
  checks (every amount positive, big blind at least the small blind), and starting it
  leaves both seats with fewer than zero chips.
\<close>

theorem blinds_drive_chip_counts_negative:
  "0 < small_blind blinds_5_10_buy_in_1 \<and> 0 < big_blind blinds_5_10_buy_in_1
   \<and> map chip_count (seats (table_db ''waiting'' blinds_5_10_buy_in_1 short_stacked)) = [1, 1]
   \<and> fst (start_game (\<lambda>i. 0) 0 (table_db ''waiting'' blinds_5_10_buy_in_1 short_stacked) ''ABC123'')
       = Inr ''Game started successfully.''
   \<and> map chip_count
         (seats (snd (start_game (\<lambda>i. 0) 0
                        (table_db ''waiting'' blinds_5_10_buy_in_1 short_stacked) ''ABC123'')))
       = [- 4, - 9]
   \<and> map chip_count
         (seats (snd (start_new_hand (\<lambda>i. 0) 0 1 short_stacked blinds_5_10_buy_in_1
                        (table_db ''in_progress'' blinds_5_10_buy_in_1 short_stacked))))
       = [- 4, - 9]"
  by code_simp

subsection \<open>Conservation of chips\<close>

text \<open>
  C3. The chips of a table are the chip counts of its seats plus the pot. A table of two
  seats of which only one is playing passes the check of \<^verbatim>\<open>start_game\<close> (two seats),
  and the resolver then names the one playing seat as small blind and as big blind.
  \<^verbatim>\<open>start_new_hand\<close> writes that seat's chip count twice from the count it read
  before the hand (100 - 5, then 100 - 10), so only the big blind leaves the seat, while
  the pot is set to 15: the table holds 205 chips after the hand started, 200 before.
\<close>

theorem blinds_from_one_seat_create_chips:
  "length (seats_of_game (table_db ''waiting'' blinds_5_10 one_playing_one_out) 1) = 2
   \<and> sum_list (map chip_count (seats (table_db ''waiting'' blinds_5_10 one_playing_one_out))) = 200
   \<and> fst (start_game (\<lambda>i. 0) 0 (table_db ''waiting'' blinds_5_10 one_playing_one_out) ''ABC123'')
       = Inr ''Game started successfully.''
   \<and> map chip_count
         (seats (snd (start_game (\<lambda>i. 0) 0
                        (table_db ''waiting'' blinds_5_10 one_playing_one_out) ''ABC123'')))
       = [90, 100]
   \<and> map pot_size
         (game_states (snd (start_game (\<lambda>i. 0) 0
                        (table_db ''waiting'' blinds_5_10 one_playing_one_out) ''ABC123'')))
       = [15]
   \<and> map current_bet
         (game_states (snd (start_game (\<lambda>i. 0) 0
                        (table_db ''waiting'' blinds_5_10 one_playing_one_out) ''ABC123'')))
       = [10]
   \<and> sum_list (map chip_count
         (seats (snd (start_new_hand (\<lambda>i. 0) 0 1 one_playing_one_out blinds_5_10
                        (table_db ''in_progress'' blinds_5_10 one_playing_one_out)))))
     + sum_list (map pot_size
         (game_states (snd (start_new_hand (\<lambda>i. 0) 0 1 one_playing_one_out blinds_5_10
                        (table_db ''in_progress'' blinds_5_10 one_playing_one_out)))))
       = 205"
  by code_simp

text \<open>
  Where the two blinds are taken from two different rows the chips are conserved: the
  seats lose exactly the two blinds, which is what the pot is set to.
\<close>

lemma blind_seats_differ:
  assumes "distinct (eligible_seats players)" "2 \<le> length (eligible_seats players)"
    and "get_player_positions players dealer_seat = Inr (sb_seat, bb_seat, utg_seat)"
  shows "sb_seat \<noteq> bb_seat"
proof -
  let ?S = "player_seats players"
  let ?n = "length ?S"
  let ?i = "dealer_index ?S dealer_seat"
  have n2: "2 \<le> ?n" using assms(2) by (simp add: length_player_seats)
  then have ne: "?S \<noteq> []" by auto
  have dS: "distinct ?S" using assms(1) by (simp add: distinct_player_seats)
  have lt: "\<And>k. (?i + k) mod ?n < ?n" using ne by simp
  show ?thesis
  proof (cases "?n = 2")
    case True
    have "?i < ?n" using ne by (rule dealer_index_lt)
    then have "(?i + 0) mod ?n = ?i" by simp
    moreover have "(?i + 0) mod ?n \<noteq> (?i + 1) mod ?n"
      using True by (intro shifted_mod_neq) simp_all
    ultimately have "?S ! ?i \<noteq> ?S ! ((?i + 1) mod ?n)"
      using dS lt[of 0] lt[of 1] by (intro nth_neq_of_index_neq) simp_all
    then show ?thesis using positions_two[OF True, of dealer_seat] assms(3) True by simp
  next
    case False
    have "(?i + 1) mod ?n \<noteq> (?i + 2) mod ?n"
      using n2 by (intro shifted_mod_neq) simp_all
    then have "?S ! ((?i + 1) mod ?n) \<noteq> ?S ! ((?i + 2) mod ?n)"
      using dS lt[of 1] lt[of 2] by (intro nth_neq_of_index_neq)
    then show ?thesis using positions_many[OF False ne, of dealer_seat] assms(3) by simp
  qed
qed

lemma chip_sum_after_update:
  assumes "distinct (map seat_id rows)" "k < length rows" "seat_id (rows ! k) = key"
  shows "sum_list (map chip_count
           (map (\<lambda>row. if seat_id row = key then row\<lparr>chip_count := c\<rparr> else row) rows))
       = sum_list (map chip_count rows) - chip_count (rows ! k) + c"
  using assms
proof (induction rows arbitrary: k)
  case Nil
  then show ?case by simp
next
  case (Cons x rows)
  show ?case
  proof (cases k)
    case 0
    have "key \<notin> seat_id ` set rows" using Cons.prems 0 by simp
    then have "\<forall>row\<in>set rows. seat_id row \<noteq> key" by blast
    then have "map (\<lambda>row. if seat_id row = key then row\<lparr>chip_count := c\<rparr> else row) rows = rows"
      by (simp add: map_idI)
    then show ?thesis using Cons.prems 0 by simp
  next
    case (Suc j)
    then have j: "j < length rows" "seat_id (rows ! j) = key" using Cons.prems by simp_all
    then have "key \<in> set (map seat_id rows)" by (metis length_map nth_map nth_mem)
    then have "seat_id x \<noteq> key" using Cons.prems(1) by auto
    moreover have "distinct (map seat_id rows)" using Cons.prems(1) by simp
    ultimately show ?thesis using Cons.IH[OF _ j] Suc by simp
  qed
qed

lemma chips_conserved_with_two_blind_seats:
  assumes run: "start_new_hand rand r gid players stg d = (Inr (), d')"
    and keys: "distinct (map seat_id (seats d))"
    and snapshot: "set players \<subseteq> set (seats d)"
    and numbers: "distinct (eligible_seats players)"
    and two: "2 \<le> length (eligible_seats players)"
  shows "sum_list (map chip_count (seats d')) + (small_blind stg + big_blind stg)
           = sum_list (map chip_count (seats d))"
    and "\<forall>gs\<in>set (game_states d'). gs_game_id gs = gid \<longrightarrow>
           pot_size gs = small_blind stg + big_blind stg \<and> current_bet gs = big_blind stg"
proof -
  from run obtain deck d1 dealer_seat sb_seat bb_seat utg_seat sb_player bb_player utg_player
    where deal: "deal_hole_cards (shuffle_deck rand create_deck) players d = (Inr deck, d1)"
    and "choice r (map seat_number players) = Inr dealer_seat"
    and pos: "get_player_positions players dealer_seat = Inr (sb_seat, bb_seat, utg_seat)"
    and f1: "find (\<lambda>p. seat_number p = sb_seat) players = Some sb_player"
    and f2: "find (\<lambda>p. seat_number p = bb_seat) players = Some bb_player"
    and "find (\<lambda>p. seat_number p = utg_seat) players = Some utg_player"
    and d': "d' = update_game_state
            (\<lambda>row. row\<lparr>dealer_position := Some dealer_seat,
                        pot_size := small_blind stg + big_blind stg,
                        current_bet := big_blind stg, community_cards := [],
                        current_player_turn := Some (user_id utg_player)\<rparr>) gid
            (update_seats (\<lambda>row. row\<lparr>chip_count := chip_count bb_player - big_blind stg\<rparr>)
               (seat_id bb_player)
               (update_seats (\<lambda>row. row\<lparr>chip_count := chip_count sb_player - small_blind stg\<rparr>)
                  (seat_id sb_player) d1))"
    by (rule start_new_hand_success)
  let ?rows1 = "seats d1"
  let ?upd1 = "\<lambda>row. if seat_id row = seat_id sb_player
                     then row\<lparr>chip_count := chip_count sb_player - small_blind stg\<rparr> else row"
  let ?rows2 = "map ?upd1 ?rows1"
  let ?upd2 = "\<lambda>row. if seat_id row = seat_id bb_player
                     then row\<lparr>chip_count := chip_count bb_player - big_blind stg\<rparr> else row"
  have d1: "d1 = snd (deal_hole_cards (shuffle_deck rand create_deck) players d)"
    using deal by simp
  have ids1: "map seat_id ?rows1 = map seat_id (seats d)"
    and chips1: "map chip_count ?rows1 = map chip_count (seats d)"
    unfolding d1 by (simp_all add: deal_hole_cards_other_columns)
  have len1: "length ?rows1 = length (seats d)" using ids1 by (rule map_eq_imp_length_eq)
  have sbp: "sb_player \<in> set players" "seat_number sb_player = sb_seat"
    using f1 by (auto simp add: find_Some_iff)
  have bbp: "bb_player \<in> set players" "seat_number bb_player = bb_seat"
    using f2 by (auto simp add: find_Some_iff)
  have "sb_seat \<noteq> bb_seat" using numbers two pos by (rule blind_seats_differ)
  then have diff: "sb_player \<noteq> bb_player" using sbp(2) bbp(2) by auto
  have "sb_player \<in> set (seats d)" "bb_player \<in> set (seats d)"
    using sbp(1) bbp(1) snapshot by auto
  then obtain k1 k2 where k1: "k1 < length (seats d)" "seats d ! k1 = sb_player"
    and k2: "k2 < length (seats d)" "seats d ! k2 = bb_player"
    unfolding in_set_conv_nth by blast
  have col: "seat_id (?rows1 ! k) = seat_id (seats d ! k)
      \<and> chip_count (?rows1 ! k) = chip_count (seats d ! k)" if "k < length (seats d)" for k
    using ids1 chips1 that len1 by (metis nth_map)
  have key_diff: "seat_id sb_player \<noteq> seat_id bb_player"
  proof
    assume "seat_id sb_player = seat_id bb_player"
    then have same: "map seat_id (seats d) ! k1 = map seat_id (seats d) ! k2"
      using k1 k2 by simp
    have lt: "k1 < length (map seat_id (seats d))" "k2 < length (map seat_id (seats d))"
      using k1(1) k2(1) by simp_all
    have "k1 = k2" using nth_eq_iff_index_eq[OF keys lt] same by (rule iffD1)
    then show False using k1 k2 diff by simp
  qed
  have dist1: "distinct (map seat_id ?rows1)" using keys ids1 by simp
  have s1: "sum_list (map chip_count ?rows2)
      = sum_list (map chip_count ?rows1) - chip_count sb_player
        + (chip_count sb_player - small_blind stg)"
    using chip_sum_after_update[OF dist1, of k1 "seat_id sb_player"
        "chip_count sb_player - small_blind stg"] col[OF k1(1)] k1 len1
    by simp
  have ids2: "map seat_id ?rows2 = map seat_id ?rows1" by simp
  have dist2: "distinct (map seat_id ?rows2)" using dist1 by (simp only: ids2)
  have row2: "seat_id (?rows2 ! k2) = seat_id bb_player"
    "chip_count (?rows2 ! k2) = chip_count bb_player"
    using col[OF k2(1)] k2 len1 key_diff by simp_all
  have s2: "sum_list (map chip_count (map ?upd2 ?rows2))
      = sum_list (map chip_count ?rows2) - chip_count bb_player
        + (chip_count bb_player - big_blind stg)"
    using chip_sum_after_update[OF dist2, of k2 "seat_id bb_player"
        "chip_count bb_player - big_blind stg"] row2 k2(1) len1
    by simp
  have seats': "seats d' = map ?upd2 ?rows2"
    unfolding d' by (simp add: seats_update_game_state seats_update_seats)
  have "sum_list (map chip_count ?rows1) = sum_list (map chip_count (seats d))"
    by (simp only: chips1)
  then show "sum_list (map chip_count (seats d')) + (small_blind stg + big_blind stg)
           = sum_list (map chip_count (seats d))"
    unfolding seats' s2 s1 by simp
  show "\<forall>gs\<in>set (game_states d'). gs_game_id gs = gid \<longrightarrow>
           pot_size gs = small_blind stg + big_blind stg \<and> current_bet gs = big_blind stg"
  proof (intro ballI impI)
    fix gs
    assume gs: "gs \<in> set (game_states d')" and key: "gs_game_id gs = gid"
    define f where "f = (\<lambda>row :: game_state. row\<lparr>dealer_position := Some dealer_seat,
                        pot_size := small_blind stg + big_blind stg,
                        current_bet := big_blind stg, community_cards := [],
                        current_player_turn := Some (user_id utg_player)\<rparr>)"
    have f: "\<And>row. pot_size (f row) = small_blind stg + big_blind stg
                 \<and> current_bet (f row) = big_blind stg"
      by (simp add: f_def)
    have "game_states d' = map (\<lambda>row. if gs_game_id row = gid then f row else row)
                             (game_states d1)"
      unfolding d' f_def
      by (simp add: game_states_update_game_state other_tables_update_seats)
    with gs have "gs \<in> (\<lambda>row. if gs_game_id row = gid then f row else row)
                       ` set (game_states d1)"
      by (simp only: set_map)
    then obtain row where eq: "gs = (if gs_game_id row = gid then f row else row)"
      by (rule imageE)
    show "pot_size gs = small_blind stg + big_blind stg \<and> current_bet gs = big_blind stg"
    proof (cases "gs_game_id row = gid")
      case True
      then show ?thesis using eq f by simp
    next
      case False
      then show ?thesis using eq key by simp
    qed
  qed
qed

end
